theory Spec2Isabelle
  imports Complex_Main
begin

section \<open>JavaScript strings\<close>

text \<open>
  A JavaScript string is a sequence of UTF-16 code units; \<open>length\<close>, \<open>indexOf\<close> and
  \<open>substring\<close> count code units. A string is therefore a list of code units, each a
  natural number below 65536, and \<open>js\<close> turns an ASCII literal into one.
\<close>

type_synonym jsstring = "nat list"

definition js :: "string \<Rightarrow> jsstring" where
  "js s = map of_char s"

text \<open>
  \<open>String.prototype.toUpperCase\<close> maps every character to its upper-case form, which may
  be longer than the character: U+00DF (sharp s) becomes the two letters SS. The table
  below is the Unicode mapping for Basic Latin and Latin-1 Supplement (code units below
  256); code units from 256 on are left as they are, their case mapping is not modelled.
\<close>

definition upperUnit :: "nat \<Rightarrow> jsstring" where
  "upperUnit c =
     (if 97 \<le> c \<and> c \<le> 122 then [c - 32]
      else if c = 181 then [924]
      else if c = 223 then [83, 83]
      else if 224 \<le> c \<and> c \<le> 254 \<and> c \<noteq> 247 then [c - 32]
      else if c = 255 then [376]
      else [c])"

definition toUpperCase :: "jsstring \<Rightarrow> jsstring" where
  "toUpperCase s = concat (map upperUnit s)"

fun startsWith :: "jsstring \<Rightarrow> jsstring \<Rightarrow> bool" where
  "startsWith s [] = True"
| "startsWith [] (p # ps) = False"
| "startsWith (c # s) (p # ps) = (c = p \<and> startsWith s ps)"

text \<open>\<open>indexOf\<close> answers -1 when the pattern does not occur.\<close>

fun indexOf :: "jsstring \<Rightarrow> jsstring \<Rightarrow> int" where
  "indexOf [] p = (if p = [] then 0 else - 1)"
| "indexOf (c # s) p =
     (if startsWith (c # s) p then 0
      else (let i = indexOf s p in if i < 0 then - 1 else i + 1))"

fun includes_str :: "jsstring \<Rightarrow> jsstring \<Rightarrow> bool" where
  "includes_str [] p = (p = [])"
| "includes_str (c # s) p = (startsWith (c # s) p \<or> includes_str s p)"

text \<open>\<open>s.substring(i)\<close>: a negative start counts as 0, a start beyond the end gives \<open>''\<close>.\<close>

definition substring :: "jsstring \<Rightarrow> int \<Rightarrow> jsstring" where
  "substring s i = drop (nat i) s"

text \<open>\<open>s.split(sep)\<close> for a separator of one code unit; \<open>''.split(sep)\<close> is \<open>['']\<close>.\<close>

fun split :: "jsstring \<Rightarrow> nat \<Rightarrow> jsstring list" where
  "split [] sep = [Nil]"
| "split (c # s) sep =
     (if c = sep then [] # split s sep
      else (case split s sep of
              [] \<Rightarrow> [c] # []
            | l # ls \<Rightarrow> (c # l) # ls))"

fun join :: "jsstring \<Rightarrow> jsstring list \<Rightarrow> jsstring" where
  "join sep [] = []"
| "join sep [x] = x"
| "join sep (x # y # ys) = x @ sep @ join sep (y # ys)"

text \<open>\<open>s || d\<close> on strings: the empty string is falsy.\<close>

definition orElse :: "jsstring \<Rightarrow> jsstring \<Rightarrow> jsstring" where
  "orElse s d = (if s = [] then d else s)"

text \<open>
  \<open>s.replace(pattern, replacement)\<close> with a string pattern replaces the first occurrence
  only, and expands the dollar patterns of the replacement: \<open>$$\<close> is a dollar sign,
  \<open>$&\<close> the matched text, \<open>$`\<close> the text preceding the match and \<open>$'\<close> the text following it.
  A string pattern has no capture groups, so every other \<open>$\<close> stays as it is.
\<close>

fun getSubstitution :: "jsstring \<Rightarrow> jsstring \<Rightarrow> jsstring \<Rightarrow> jsstring \<Rightarrow> jsstring" where
  "getSubstitution matched preceding following [] = []"
| "getSubstitution matched preceding following [c] = [c]"
| "getSubstitution matched preceding following (c # d # rest) =
     (if c = 36 \<and> d = 36 then 36 # getSubstitution matched preceding following rest
      else if c = 36 \<and> d = 38 then matched @ getSubstitution matched preceding following rest
      else if c = 36 \<and> d = 96 then preceding @ getSubstitution matched preceding following rest
      else if c = 36 \<and> d = 39 then following @ getSubstitution matched preceding following rest
      else c # getSubstitution matched preceding following (d # rest))"

definition replace :: "jsstring \<Rightarrow> jsstring \<Rightarrow> jsstring \<Rightarrow> jsstring" where
  "replace s pattern replacement =
     (let i = indexOf s pattern in
      if i < 0 then s
      else (let preceding = take (nat i) s;
                following = drop (nat i + length pattern) s
            in preceding @ getSubstitution pattern preceding following replacement @ following))"

section \<open>Shared types (shared/types.ts)\<close>

datatype Role = CPO | CTO | COO | CISO

definition ROLES :: "Role list" where
  "ROLES = [CPO, CTO, COO, CISO]"

text \<open>A \<open>Role\<close> is a string at run time.\<close>

fun roleName :: "Role \<Rightarrow> jsstring" where
  "roleName CPO = js ''CPO''"
| "roleName CTO = js ''CTO''"
| "roleName COO = js ''COO''"
| "roleName CISO = js ''CISO''"

record StageResponse =
  role :: jsstring
  response :: jsstring

text \<open>
  \<open>custom_role_instructions\<close> has one text per role, the synthesizer CEO included; the
  engine reads it at a reviewer role.
\<close>

record RoleInstructions =
  CTO_text :: jsstring
  CPO_text :: jsstring
  COO_text :: jsstring
  CISO_text :: jsstring
  CEO_text :: jsstring

fun instructionsFor :: "RoleInstructions \<Rightarrow> Role \<Rightarrow> jsstring" where
  "instructionsFor m CPO = CPO_text m"
| "instructionsFor m CTO = CTO_text m"
| "instructionsFor m COO = COO_text m"
| "instructionsFor m CISO = CISO_text m"

record Config =
  executive_model :: jsstring
  ceo_model :: jsstring
  operational_context :: jsstring
  custom_role_instructions :: RoleInstructions

record ReviewRequest =
  r_document :: jsstring
  r_config :: Config
  r_webhook_url :: "jsstring option"

record ReviewResult =
  stage1 :: "StageResponse list"
  stage2 :: "StageResponse list"
  stage3 :: "StageResponse list"
  synthesis :: jsstring

datatype Status = Queued | Processing | Completed | Failed

record Progress =
  progress_stage :: jsstring
  progress_step :: jsstring

record JobStatus =
  id_field :: jsstring
  status :: Status
  created_at :: jsstring
  started_at :: "jsstring option"
  completed_at :: "jsstring option"
  failed_at :: "jsstring option"
  error :: "jsstring option"
  webhook_url :: "jsstring option"
  progress :: "Progress option"

text \<open>\<open>Partial<JobStatus>\<close>: every field may be absent.\<close>

record JobStatusPartial =
  p_id :: "jsstring option"
  p_status :: "Status option"
  p_created_at :: "jsstring option"
  p_started_at :: "jsstring option"
  p_completed_at :: "jsstring option"
  p_failed_at :: "jsstring option"
  p_error :: "jsstring option"
  p_webhook_url :: "jsstring option"
  p_progress :: "Progress option"

definition noFields :: JobStatusPartial where
  "noFields = \<lparr>p_id = None, p_status = None, p_created_at = None, p_started_at = None,
     p_completed_at = None, p_failed_at = None, p_error = None, p_webhook_url = None,
     p_progress = None\<rparr>"

record QueueMessage =
  m_jobId :: jsstring
  m_documentKey :: jsstring
  m_configKey :: jsstring
  m_webhookUrl :: "jsstring option"

section \<open>Prompts (shared/prompts.ts)\<close>

definition STAGE1_PROMPT :: jsstring where
  \<open>STAGE1_PROMPT =
     js ''{role_instructions}\<newline>'' @
     js ''\<newline>'' @
     js ''{operational_context}\<newline>'' @
     js ''\<newline>'' @
     js ''---\<newline>'' @
     js ''\<newline>'' @
     js ''You are reviewing the following plan or specification:\<newline>'' @
     js ''\<newline>'' @
     js ''{document_content}\<newline>'' @
     js ''\<newline>'' @
     js ''---\<newline>'' @
     js ''\<newline>'' @
     js ''Provide your {role} perspective on this plan. Focus on your domain expertise.\<newline>'' @
     js ''\<newline>'' @
     js ''Structure your review:\<newline>'' @
     js ''1. **Domain Assessment**: Key observations from your perspective\<newline>'' @
     js ''2. **Strengths**: What's working well\<newline>'' @
     js ''3. **Concerns**: Issues or risks in your domain\<newline>'' @
     js ''4. **Questions**: What you need clarified (if any)\<newline>'' @
     js ''5. **Recommendations**: Specific suggestions\<newline>'' @
     js ''\<newline>'' @
     js ''Be direct and actionable. Flag critical issues clearly.''\<close>

definition STAGE2_PROMPT :: jsstring where
  \<open>STAGE2_PROMPT =
     js ''{role_instructions}\<newline>'' @
     js ''\<newline>'' @
     js ''{operational_context}\<newline>'' @
     js ''\<newline>'' @
     js ''You've seen initial reviews from the executive team:\<newline>'' @
     js ''\<newline>'' @
     js ''{stage1_text}\<newline>'' @
     js ''\<newline>'' @
     js ''---\<newline>'' @
     js ''\<newline>'' @
     js ''Now identify cross-domain tensions and ask clarifying questions.\<newline>'' @
     js ''\<newline>'' @
     js ''Your task:\<newline>'' @
     js ''1. Identify where your domain concerns may conflict with others\<newline>'' @
     js ''2. Note areas of implicit disagreement\<newline>'' @
     js ''3. Ask 1-3 specific questions to OTHER executives\<newline>'' @
     js ''\<newline>'' @
     js ''Format your questions as:\<newline>'' @
     js ''"Question to [ROLE]: [Your question]"\<newline>'' @
     js ''\<newline>'' @
     js ''Example:\<newline>'' @
     js ''"Question to CTO: How does the proposed architecture handle the compliance requirements I flagged?"\<newline>'' @
     js ''\<newline>'' @
     js ''Be specific. Good questions surface hidden tensions.''\<close>

definition STAGE3_PROMPT :: jsstring where
  \<open>STAGE3_PROMPT =
     js ''{role_instructions}\<newline>'' @
     js ''\<newline>'' @
     js ''{operational_context}\<newline>'' @
     js ''\<newline>'' @
     js ''Previous discussion:\<newline>'' @
     js ''\<newline>'' @
     js ''{stage1_text}\<newline>'' @
     js ''\<newline>'' @
     js ''---\<newline>'' @
     js ''\<newline>'' @
     js ''Questions directed to you:\<newline>'' @
     js ''\<newline>'' @
     js ''{directed_questions}\<newline>'' @
     js ''\<newline>'' @
     js ''---\<newline>'' @
     js ''\<newline>'' @
     js ''Respond to questions directed to your role. Be specific and actionable.\<newline>'' @
     js ''\<newline>'' @
     js ''If a question reveals a genuine tension, acknowledge it rather than dismissing it.\<newline>'' @
     js ''If you need to defer to another executive, say so explicitly.''\<close>

definition STAGE4_PROMPT :: jsstring where
  \<open>STAGE4_PROMPT =
     js ''You are the CEO synthesizing the executive team's deliberation.\<newline>'' @
     js ''\<newline>'' @
     js ''{operational_context}\<newline>'' @
     js ''\<newline>'' @
     js ''---\<newline>'' @
     js ''\<newline>'' @
     js ''Original Plan:\<newline>'' @
     js ''{document_content}\<newline>'' @
     js ''\<newline>'' @
     js ''---\<newline>'' @
     js ''\<newline>'' @
     js ''Executive Reviews (Stage 1):\<newline>'' @
     js ''{stage1_text}\<newline>'' @
     js ''\<newline>'' @
     js ''---\<newline>'' @
     js ''\<newline>'' @
     js ''Cross-Domain Questions (Stage 2):\<newline>'' @
     js ''{stage2_text}\<newline>'' @
     js ''\<newline>'' @
     js ''---\<newline>'' @
     js ''\<newline>'' @
     js ''Responses (Stage 3):\<newline>'' @
     js ''{stage3_text}\<newline>'' @
     js ''\<newline>'' @
     js ''---\<newline>'' @
     js ''\<newline>'' @
     js ''Synthesize into an executive decision. Use this structure:\<newline>'' @
     js ''\<newline>'' @
     js ''## Executive Decision\<newline>'' @
     js ''[Clear go/no-go/conditional-go with rationale]\<newline>'' @
     js ''\<newline>'' @
     js ''## Key Consensus Points\<newline>'' @
     js ''[Where the team agreed]\<newline>'' @
     js ''\<newline>'' @
     js ''## Unresolved Tensions\<newline>'' @
     js ''[Tradeoffs that remain - don't force false consensus]\<newline>'' @
     js ''\<newline>'' @
     js ''## Action Items\<newline>'' @
     js ''[Concrete next steps with ownership]\<newline>'' @
     js ''- [ ] [Action] '' @ [8212] @ js '' Owner: [Role]\<newline>'' @
     js ''\<newline>'' @
     js ''## Phase Gate Criteria\<newline>'' @
     js ''[What must be true before proceeding to next phase?]\<newline>'' @
     js ''\<newline>'' @
     js ''## What Remains Unknown\<newline>'' @
     js ''[Honest acknowledgment of uncertainties]\<newline>'' @
     js ''\<newline>'' @
     js ''Be decisive while honoring the complexity surfaced by your team.''\<close>

definition formatStage1Responses :: "StageResponse list \<Rightarrow> jsstring" where
  "formatStage1Responses responses =
     (let parts = map (\<lambda>resp.
            (let role' = orElse (role resp) (js ''Executive'');
                 content = orElse (response resp) []
             in js ''### '' @ role' @ js ''\<newline>'' @ content @ js ''\<newline>'')) responses
      in join (js ''\<newline>---\<newline>'') parts)"

definition formatStage2Responses :: "StageResponse list \<Rightarrow> jsstring" where
  "formatStage2Responses responses =
     (let parts = map (\<lambda>resp.
            (let role' = orElse (role resp) (js ''Executive'');
                 content = orElse (response resp) []
             in js ''### '' @ role' @ js ''\<newline>'' @ content @ js ''\<newline>'')) responses
      in join (js ''\<newline>'') parts)"

subsection \<open>Directed questions\<close>

text \<open>
  The inner loop of \<open>extractDirectedQuestions\<close> over the patterns: the first pattern that
  the upper-cased line includes decides, and \<open>break\<close> leaves the loop. The index is found
  in the upper-cased line and the text is cut from the line as written.
\<close>

fun firstMatch :: "jsstring \<Rightarrow> jsstring \<Rightarrow> jsstring list \<Rightarrow> jsstring option" where
  "firstMatch line lineUpper [] = None"
| "firstMatch line lineUpper (pattern # rest) =
     (if includes_str lineUpper (toUpperCase pattern)
      then (let idx = indexOf lineUpper (toUpperCase pattern) in Some (substring line idx))
      else firstMatch line lineUpper rest)"

definition targetPatterns :: "jsstring \<Rightarrow> jsstring list" where
  "targetPatterns targetRole =
     [js ''Question to '' @ targetRole @ js '':'',
      js ''Question for '' @ targetRole @ js '':'',
      js ''To '' @ targetRole @ js '':'',
      js ''@'' @ targetRole @ js '':'']"

definition lineQuestions :: "StageResponse \<Rightarrow> jsstring \<Rightarrow> jsstring \<Rightarrow> jsstring list" where
  "lineQuestions resp targetRole line =
     (case firstMatch line (toUpperCase line) (targetPatterns targetRole) of
        None \<Rightarrow> []
      | Some question \<Rightarrow>
          [js ''From '' @ orElse (role resp) (js ''Unknown'') @ js '': '' @ question])"

definition responseQuestions :: "StageResponse \<Rightarrow> jsstring \<Rightarrow> jsstring list" where
  "responseQuestions resp targetRole =
     (let content = orElse (response resp) [];
          lines = split content 10
      in concat (map (lineQuestions resp targetRole) lines))"

definition noQuestions :: jsstring where
  "noQuestions = js ''No questions directed to your role.''"

definition extractDirectedQuestions :: "StageResponse list \<Rightarrow> jsstring \<Rightarrow> jsstring" where
  "extractDirectedQuestions stage2Responses targetRole =
     (let questions = concat (map (\<lambda>resp. responseQuestions resp targetRole) stage2Responses)
      in if length questions = 0 then noQuestions
         else join (js ''\<newline>\<newline>'') questions)"

text \<open>
  A JavaScript \<open>Set\<close> keeps its elements in insertion order and \<open>add\<close> of an element it
  already has changes nothing: a list without duplicates.
\<close>

definition setAdd :: "'a list \<Rightarrow> 'a \<Rightarrow> 'a list" where
  "setAdd s x = (if x \<in> set s then s else s @ [x])"

definition allRoles :: "Role list" where
  "allRoles = [CPO, CTO, COO, CISO]"

definition rolePatterns :: "Role \<Rightarrow> jsstring list" where
  "rolePatterns r =
     [js ''QUESTION TO '' @ roleName r,
      js ''QUESTION FOR '' @ roleName r,
      js ''TO '' @ roleName r @ js '':'',
      js ''@'' @ roleName r]"

definition mentions :: "jsstring \<Rightarrow> Role \<Rightarrow> bool" where
  "mentions content r = list_ex (\<lambda>p. includes_str content p) (rolePatterns r)"

definition scanResponse :: "StageResponse \<Rightarrow> Role list \<Rightarrow> Role list" where
  "scanResponse resp rolesWithQuestions =
     (let content = toUpperCase (orElse (response resp) [])
      in fold (\<lambda>r acc. if mentions content r then setAdd acc r else acc)
           allRoles rolesWithQuestions)"

definition getExecutivesWithQuestions :: "StageResponse list \<Rightarrow> Role list" where
  "getExecutivesWithQuestions stage2Responses = fold scanResponse stage2Responses []"
section \<open>Generation client (shared/llm-client.ts)\<close>

text \<open>
  What the client sees of one HTTP exchange with a provider: \<open>response.ok\<close>,
  \<open>response.status\<close>, the body as text, and the generated text read out of the body as
  JSON, which throws when the body has another shape (\<open>Inl\<close> is the message of the error).
\<close>

record HttpResponse =
  ok :: bool
  http_status :: nat
  body_text :: jsstring
  generated :: "jsstring + jsstring"

datatype Provider = OpenRouter | Anthropic | OpenAI

text \<open>
  The providers are outside the program. A call is identified by the stage it belongs to
  and its position in the stage, since a provider may answer two equal requests
  differently; \<open>fetch\<close> itself may throw (\<open>Inl\<close>).
\<close>

type_synonym callId = "nat \<times> nat"

type_synonym fetcher =
  "callId \<Rightarrow> Provider \<Rightarrow> jsstring \<Rightarrow> jsstring \<Rightarrow> real \<Rightarrow> jsstring + HttpResponse"

fun decimal :: "nat \<Rightarrow> jsstring" where
  "decimal n = (if n < 10 then [48 + n] else decimal (n div 10) @ [48 + n mod 10])"

definition queryOpenRouter ::
  "fetcher \<Rightarrow> callId \<Rightarrow> jsstring \<Rightarrow> jsstring \<Rightarrow> real \<Rightarrow> jsstring + jsstring" where
  "queryOpenRouter fetch k prompt model temperature =
     (let modelName = replace model (js ''openrouter:'') []
      in case fetch k OpenRouter modelName prompt temperature of
           Inl thrown \<Rightarrow> Inl thrown
         | Inr resp \<Rightarrow>
             if \<not> ok resp
             then Inl (js ''OpenRouter API error ('' @ decimal (http_status resp) @ js ''): ''
                        @ body_text resp)
             else generated resp)"

definition queryAnthropic ::
  "fetcher \<Rightarrow> callId \<Rightarrow> jsstring \<Rightarrow> jsstring \<Rightarrow> real \<Rightarrow> jsstring + jsstring" where
  "queryAnthropic fetch k prompt model temperature =
     (let modelName = replace model (js ''anthropic:'') []
      in case fetch k Anthropic modelName prompt temperature of
           Inl thrown \<Rightarrow> Inl thrown
         | Inr resp \<Rightarrow>
             if \<not> ok resp
             then Inl (js ''Anthropic API error ('' @ decimal (http_status resp) @ js ''): ''
                        @ body_text resp)
             else generated resp)"

definition queryOpenAI ::
  "fetcher \<Rightarrow> callId \<Rightarrow> jsstring \<Rightarrow> jsstring \<Rightarrow> real \<Rightarrow> jsstring + jsstring" where
  "queryOpenAI fetch k prompt model temperature =
     (let modelName = replace model (js ''openai:'') []
      in case fetch k OpenAI modelName prompt temperature of
           Inl thrown \<Rightarrow> Inl thrown
         | Inr resp \<Rightarrow>
             if \<not> ok resp
             then Inl (js ''OpenAI API error ('' @ decimal (http_status resp) @ js ''): ''
                        @ body_text resp)
             else generated resp)"

text \<open>\<open>LLMClient.query\<close>: \<open>Inl\<close> is the message of the error thrown, \<open>Inr\<close> the text.\<close>

definition query ::
  "fetcher \<Rightarrow> callId \<Rightarrow> jsstring \<Rightarrow> jsstring \<Rightarrow> real \<Rightarrow> jsstring + jsstring" where
  "query fetch k prompt model temperature =
     (if startsWith model (js ''openrouter:'') then queryOpenRouter fetch k prompt model temperature
      else if startsWith model (js ''anthropic:'') then queryAnthropic fetch k prompt model temperature
      else if startsWith model (js ''openai:'') then queryOpenAI fetch k prompt model temperature
      else Inl (js ''Unknown model provider: '' @ model))"

section \<open>Deliberation engine (shared/council.ts)\<close>

text \<open>
  The engine is run with the calls it makes written down: every \<open>llm.query\<close> leaves a
  \<open>Call\<close> with the stage it was made in, its three arguments and what it returned.
\<close>

record Call =
  call_stage :: nat
  call_prompt :: jsstring
  call_model :: jsstring
  call_temperature :: real
  call_result :: "jsstring + jsstring"

definition loggedQuery ::
  "fetcher \<Rightarrow> callId \<Rightarrow> jsstring \<Rightarrow> jsstring \<Rightarrow> real \<Rightarrow> Call" where
  "loggedQuery fetch k prompt model temperature =
     \<lparr>call_stage = fst k, call_prompt = prompt, call_model = model,
      call_temperature = temperature,
      call_result = query fetch k prompt model temperature\<rparr>"

text \<open>
  \<open>Promise.all\<close> over the promises of one stage. Every promise settles, in an order the
  program does not control: \<open>order\<close> lists the positions in the order in which they
  settle, and a position it does not list settles after the listed ones, in array order.
  The first promise to settle rejected rejects the whole; when none is rejected the
  values come back in array order.
\<close>

fun firstRejection :: "nat list \<Rightarrow> (jsstring + 'a) list \<Rightarrow> jsstring option" where
  "firstRejection [] outs = None"
| "firstRejection (i # rest) outs =
     (if i < length outs
      then (case outs ! i of Inl e \<Rightarrow> Some e | Inr v \<Rightarrow> firstRejection rest outs)
      else firstRejection rest outs)"

fun fulfilled :: "(jsstring + 'a) list \<Rightarrow> 'a list" where
  "fulfilled [] = []"
| "fulfilled (Inl e # rest) = fulfilled rest"
| "fulfilled (Inr v # rest) = v # fulfilled rest"

definition promiseAll :: "nat list \<Rightarrow> (jsstring + 'a) list \<Rightarrow> jsstring + 'a list" where
  "promiseAll order outs =
     (case firstRejection (order @ [0..<length outs]) outs of
        Some e \<Rightarrow> Inl e
      | None \<Rightarrow> Inr (fulfilled outs))"

text \<open>\<open>Promise.all(xs.map(task))\<close>: every task is started, so every call is made.\<close>

definition runTasks ::
  "nat list \<Rightarrow> ('a \<Rightarrow> Call \<times> (jsstring + StageResponse)) \<Rightarrow> 'a list
     \<Rightarrow> Call list \<times> (jsstring + StageResponse list)" where
  "runTasks order task xs =
     (let started = map task xs
      in (map fst started, promiseAll order (map snd started)))"

text \<open>
  The optional progress callback acts on a state of the caller's; the engine threads that
  state through the callbacks in the order in which it issues them.
\<close>

type_synonym 's progressCallback = "(jsstring \<Rightarrow> jsstring \<Rightarrow> 's \<Rightarrow> 's) option"

definition report :: "'s progressCallback \<Rightarrow> jsstring \<Rightarrow> jsstring \<Rightarrow> 's \<Rightarrow> 's" where
  "report progressCallback stage step s =
     (case progressCallback of None \<Rightarrow> s | Some f \<Rightarrow> f stage step s)"

definition reportQuerying :: "'s progressCallback \<Rightarrow> jsstring \<Rightarrow> Role list \<Rightarrow> 's \<Rightarrow> 's" where
  "reportQuerying progressCallback stage roles s =
     fold (\<lambda>role'. report progressCallback stage (js ''Querying '' @ roleName role')) roles s"

definition stage1Prompt :: "Config \<Rightarrow> jsstring \<Rightarrow> Role \<Rightarrow> jsstring" where
  "stage1Prompt config documentContent role' =
     replace (replace (replace (replace STAGE1_PROMPT
       (js ''{role}'') (roleName role'))
       (js ''{role_instructions}'') (instructionsFor (custom_role_instructions config) role'))
       (js ''{operational_context}'') (operational_context config))
       (js ''{document_content}'') documentContent"

definition stage2Prompt :: "Config \<Rightarrow> jsstring \<Rightarrow> Role \<Rightarrow> jsstring" where
  "stage2Prompt config stage1Text role' =
     replace (replace (replace STAGE2_PROMPT
       (js ''{role_instructions}'') (instructionsFor (custom_role_instructions config) role'))
       (js ''{operational_context}'') (operational_context config))
       (js ''{stage1_text}'') stage1Text"

definition stage3Prompt :: "Config \<Rightarrow> jsstring \<Rightarrow> jsstring \<Rightarrow> Role \<Rightarrow> jsstring" where
  "stage3Prompt config stage1Text questions role' =
     replace (replace (replace (replace STAGE3_PROMPT
       (js ''{role_instructions}'') (instructionsFor (custom_role_instructions config) role'))
       (js ''{operational_context}'') (operational_context config))
       (js ''{stage1_text}'') stage1Text)
       (js ''{directed_questions}'') questions"

definition stage4Prompt ::
  "Config \<Rightarrow> jsstring \<Rightarrow> jsstring \<Rightarrow> jsstring \<Rightarrow> jsstring \<Rightarrow> jsstring" where
  "stage4Prompt config documentContent stage1Text stage2Text stage3Text =
     replace (replace (replace (replace (replace STAGE4_PROMPT
       (js ''{operational_context}'') (operational_context config))
       (js ''{document_content}'') documentContent)
       (js ''{stage1_text}'') stage1Text)
       (js ''{stage2_text}'') stage2Text)
       (js ''{stage3_text}'') stage3Text"

definition answered :: "Role \<Rightarrow> Call \<Rightarrow> Call \<times> (jsstring + StageResponse)" where
  "answered role' c =
     (c, case call_result c of
           Inl e \<Rightarrow> Inl e
         | Inr answer \<Rightarrow> Inr \<lparr>role = roleName role', response = answer\<rparr>)"

definition stage1Task ::
  "fetcher \<Rightarrow> Config \<Rightarrow> jsstring \<Rightarrow> nat \<times> Role \<Rightarrow> Call \<times> (jsstring + StageResponse)" where
  "stage1Task fetch config documentContent =
     (\<lambda>(i, role'). answered role'
        (loggedQuery fetch (1, i) (stage1Prompt config documentContent role')
           (executive_model config) (7 / 10)))"

definition stage2Task ::
  "fetcher \<Rightarrow> Config \<Rightarrow> jsstring \<Rightarrow> nat \<times> Role \<Rightarrow> Call \<times> (jsstring + StageResponse)" where
  "stage2Task fetch config stage1Text =
     (\<lambda>(i, role'). answered role'
        (loggedQuery fetch (2, i) (stage2Prompt config stage1Text role')
           (executive_model config) (6 / 10)))"

definition stage3Task ::
  "fetcher \<Rightarrow> Config \<Rightarrow> jsstring \<Rightarrow> StageResponse list \<Rightarrow> nat \<times> Role
     \<Rightarrow> Call \<times> (jsstring + StageResponse)" where
  "stage3Task fetch config stage1Text stage2Results =
     (\<lambda>(i, role').
        (let questions = extractDirectedQuestions stage2Results (roleName role')
         in answered role'
              (loggedQuery fetch (3, i) (stage3Prompt config stage1Text questions role')
                 (executive_model config) (7 / 10))))"

definition noResponses :: jsstring where
  "noResponses = js ''No responses required.''"

definition stage1Calls ::
  "fetcher \<Rightarrow> (nat \<Rightarrow> nat list) \<Rightarrow> Config \<Rightarrow> jsstring
     \<Rightarrow> Call list \<times> (jsstring + StageResponse list)" where
  "stage1Calls fetch settle config documentContent =
     runTasks (settle 1) (stage1Task fetch config documentContent) (enumerate 0 ROLES)"

definition stage2Calls ::
  "fetcher \<Rightarrow> (nat \<Rightarrow> nat list) \<Rightarrow> Config \<Rightarrow> jsstring
     \<Rightarrow> Call list \<times> (jsstring + StageResponse list)" where
  "stage2Calls fetch settle config stage1Text =
     runTasks (settle 2) (stage2Task fetch config stage1Text) (enumerate 0 ROLES)"

definition stage3Calls ::
  "fetcher \<Rightarrow> (nat \<Rightarrow> nat list) \<Rightarrow> Config \<Rightarrow> jsstring \<Rightarrow> StageResponse list
     \<Rightarrow> Role list \<Rightarrow> Call list \<times> (jsstring + StageResponse list)" where
  "stage3Calls fetch settle config stage1Text stage2Results rolesWithQuestions =
     runTasks (settle 3) (stage3Task fetch config stage1Text stage2Results)
       (enumerate 0 rolesWithQuestions)"

record 's Run =
  run_state :: 's
  run_calls :: "Call list"
  run_result :: "jsstring + ReviewResult"

text \<open>
  \<open>CouncilV1.reviewDocument\<close>, over the reviewer roles \<open>ROLES\<close>. \<open>settle n\<close> is the order in
  which the calls of stage \<open>n\<close> settle. A rejected stage rejects the whole run (\<open>Inl\<close>, the message of the error), and
  the later stages are not started.
\<close>

definition reviewDocument ::
  "fetcher \<Rightarrow> (nat \<Rightarrow> nat list) \<Rightarrow> Config \<Rightarrow> jsstring \<Rightarrow> 's progressCallback \<Rightarrow> 's
     \<Rightarrow> 's Run" where
  "reviewDocument fetch settle config documentContent progressCallback s0 =
     (let s1 = report progressCallback (js ''stage1'') (js ''Starting independent reviews'') s0;
          s2 = reportQuerying progressCallback (js ''stage1'') ROLES s1;
          (calls1, settled1) = stage1Calls fetch settle config documentContent
      in case settled1 of
           Inl e \<Rightarrow> \<lparr>run_state = s2, run_calls = calls1, run_result = Inl e\<rparr>
         | Inr stage1Results \<Rightarrow>
     (let stage1Text = formatStage1Responses stage1Results;
          s3 = report progressCallback (js ''stage2'') (js ''Starting cross-domain questions'') s2;
          s4 = reportQuerying progressCallback (js ''stage2'') ROLES s3;
          (calls2, settled2) = stage2Calls fetch settle config stage1Text
      in case settled2 of
           Inl e \<Rightarrow> \<lparr>run_state = s4, run_calls = calls1 @ calls2, run_result = Inl e\<rparr>
         | Inr stage2Results \<Rightarrow>
     (let stage2Text = formatStage2Responses stage2Results;
          rolesWithQuestions = getExecutivesWithQuestions stage2Results;
          (s6, calls3, settled3) =
             (if length rolesWithQuestions > 0
              then (let s5 = report progressCallback (js ''stage3'')
                               (js ''Starting question responses'') s4;
                        s6 = reportQuerying progressCallback (js ''stage3'') rolesWithQuestions s5;
                        (calls3, settled3) =
                           stage3Calls fetch settle config stage1Text stage2Results
                             rolesWithQuestions
                    in (s6, calls3, settled3))
              else (report progressCallback (js ''stage3'')
                      (js ''No directed questions - skipping'') s4, [], Inr []))
      in case settled3 of
           Inl e \<Rightarrow> \<lparr>run_state = s6, run_calls = calls1 @ calls2 @ calls3, run_result = Inl e\<rparr>
         | Inr stage3Results \<Rightarrow>
     (let stage3Text = (if length stage3Results > 0 then formatStage2Responses stage3Results
                        else noResponses);
          s7 = report progressCallback (js ''stage4'') (js ''Starting CEO synthesis'') s6;
          synthesisPrompt = stage4Prompt config documentContent stage1Text stage2Text stage3Text;
          call4 = loggedQuery fetch (4, 0) synthesisPrompt (ceo_model config) (7 / 10)
      in case call_result call4 of
           Inl e \<Rightarrow>
             \<lparr>run_state = s7, run_calls = calls1 @ calls2 @ calls3 @ [call4], run_result = Inl e\<rparr>
         | Inr synthesis' \<Rightarrow>
             \<lparr>run_state = report progressCallback (js ''stage4'') (js ''Synthesis complete'') s7,
              run_calls = calls1 @ calls2 @ calls3 @ [call4],
              run_result = Inr \<lparr>stage1 = stage1Results, stage2 = stage2Results,
                                stage3 = stage3Results, synthesis = synthesis'\<rparr>\<rparr>))))"

section \<open>Stores\<close>

text \<open>
  The status store (Workers KV) holds one JSON record per key. It is kept as the list of
  the writes made to it, the latest first, so that a read returns the latest value
  written under the key and the earlier values of a job remain visible to the proofs.
  Values are kept parsed: the workers only write \<open>JSON.stringify\<close> of a \<open>JobStatus\<close> and
  read it back as JSON. Expiry of a key after its time-to-live is not modelled, and
  neither store fails: a read or a write does not throw.
\<close>

type_synonym KV = "(jsstring \<times> JobStatus) list"

definition kvGet :: "KV \<Rightarrow> jsstring \<Rightarrow> JobStatus option" where
  "kvGet kv key = map_of kv key"

definition kvPut :: "KV \<Rightarrow> jsstring \<Rightarrow> JobStatus \<Rightarrow> KV" where
  "kvPut kv key v = (key, v) # kv"

text \<open>The object store (R2) maps a key to the text of the object.\<close>

record Env =
  STORAGE :: "jsstring \<rightharpoonup> jsstring"
  JOBS :: KV
  REVIEW_QUEUE :: "QueueMessage list"

definition jobKey :: "jsstring \<Rightarrow> jsstring" where
  "jobKey jobId = js ''job:'' @ jobId"

section \<open>Queue consumer (workers/consumer/src/index.ts)\<close>

text \<open>
  The object spread \<open>{...existing, id, status, created_at, ...extra}\<close>: a field of \<open>extra\<close>
  wins over the three members set by name, which win over \<open>existing\<close>; a field that none
  of them sets keeps the value it has in \<open>existing\<close>. \<open>now\<close> is the reading of the clock
  used when there is no \<open>created_at\<close> to keep.
\<close>

definition override :: "'a option \<Rightarrow> 'a option \<Rightarrow> 'a option" where
  "override old new = (case new of None \<Rightarrow> old | Some v \<Rightarrow> Some v)"

definition mergeJobStatus ::
  "JobStatus option \<Rightarrow> jsstring \<Rightarrow> Status \<Rightarrow> JobStatusPartial \<Rightarrow> jsstring \<Rightarrow> JobStatus" where
  "mergeJobStatus existing jobId st extra now =
     \<lparr>id_field = (case p_id extra of None \<Rightarrow> jobId | Some v \<Rightarrow> v),
      status = (case p_status extra of None \<Rightarrow> st | Some v \<Rightarrow> v),
      created_at =
        (case p_created_at extra of
           None \<Rightarrow> (case existing of None \<Rightarrow> now | Some e \<Rightarrow> orElse (created_at e) now)
         | Some v \<Rightarrow> v),
      started_at = override (case existing of None \<Rightarrow> None | Some e \<Rightarrow> started_at e)
                     (p_started_at extra),
      completed_at = override (case existing of None \<Rightarrow> None | Some e \<Rightarrow> completed_at e)
                       (p_completed_at extra),
      failed_at = override (case existing of None \<Rightarrow> None | Some e \<Rightarrow> failed_at e)
                    (p_failed_at extra),
      error = override (case existing of None \<Rightarrow> None | Some e \<Rightarrow> error e) (p_error extra),
      webhook_url = override (case existing of None \<Rightarrow> None | Some e \<Rightarrow> webhook_url e)
                      (p_webhook_url extra),
      progress = override (case existing of None \<Rightarrow> None | Some e \<Rightarrow> progress e)
                   (p_progress extra)\<rparr>"

definition updateJobStatus ::
  "KV \<Rightarrow> jsstring \<Rightarrow> Status \<Rightarrow> JobStatusPartial \<Rightarrow> jsstring \<Rightarrow> KV" where
  "updateJobStatus kv jobId st extra now =
     (let existing = kvGet kv (jobKey jobId);
          updated = mergeJobStatus existing jobId st extra now
      in kvPut kv (jobKey jobId) updated)"

definition updateJobProgress :: "KV \<Rightarrow> jsstring \<Rightarrow> jsstring \<Rightarrow> jsstring \<Rightarrow> KV" where
  "updateJobProgress kv jobId stage step =
     (case kvGet kv (jobKey jobId) of
        None \<Rightarrow> kv
      | Some existing \<Rightarrow>
          kvPut kv (jobKey jobId) (existing\<lparr>progress := Some \<lparr>progress_stage = stage, progress_step = step\<rparr>\<rparr>))"

text \<open>
  What the consumer takes from outside: the providers and the order in which concurrent
  calls settle, the readings of the clock (while one message is handled \<open>rt_now 0\<close> and
  \<open>rt_now 1\<close> are read for the processing status, \<open>rt_now 2\<close> and \<open>rt_now 3\<close> for the
  final status and \<open>rt_now 4\<close> for the webhook), and JSON: reading a stored config (\<open>Inl\<close>
  when the text does not parse) and writing a result.
\<close>

record Runtime =
  rt_fetch :: fetcher
  rt_settle :: "nat \<Rightarrow> nat list"
  rt_now :: "nat \<Rightarrow> jsstring"
  rt_parseConfig :: "jsstring \<Rightarrow> jsstring + Config"
  rt_stringify :: "ReviewResult \<Rightarrow> jsstring"

record Webhook =
  hook_url :: jsstring
  hook_job_id :: jsstring
  hook_status :: Status
  hook_at :: jsstring
  hook_error :: "jsstring option"

datatype Disposition = Ack | Retry

definition resultKey :: "jsstring \<Rightarrow> jsstring" where
  "resultKey jobId = js ''results/'' @ jobId @ js ''.json''"

text \<open>
  The \<open>try\<close> block of \<open>queue\<close> for one message, up to the write of the completed status:
  the environment it leaves, and \<open>Inl\<close> the message of the error it threw. The progress
  callback handed to the engine is \<open>updateJobProgress\<close> on the job of the message; the
  callbacks of one stage are taken to complete in the order in which they are issued.
\<close>

definition tryReview :: "Runtime \<Rightarrow> QueueMessage \<Rightarrow> Env \<Rightarrow> Env \<times> (jsstring + unit)" where
  "tryReview rt message env =
     (let env1 = env\<lparr>JOBS := updateJobStatus (JOBS env) (m_jobId message) Processing
                   (noFields\<lparr>p_started_at := Some (rt_now rt 0)\<rparr>) (rt_now rt 1)\<rparr>
      in case (STORAGE env1 (m_documentKey message), STORAGE env1 (m_configKey message)) of
           (Some documentText, Some configText) \<Rightarrow>
             (case rt_parseConfig rt configText of
                Inl e \<Rightarrow> (env1, Inl e)
              | Inr config \<Rightarrow>
                  (let run = reviewDocument (rt_fetch rt) (rt_settle rt) config documentText
                               (Some (\<lambda>stage step kv. updateJobProgress kv (m_jobId message) stage step))
                               (JOBS env1);
                       env2 = env1\<lparr>JOBS := run_state run\<rparr>
                   in case run_result run of
                        Inl e \<Rightarrow> (env2, Inl e)
                      | Inr result \<Rightarrow>
                          (let env3 = env2\<lparr>STORAGE := (STORAGE env2)
                                        (resultKey (m_jobId message) \<mapsto> rt_stringify rt result)\<rparr>;
                               env4 = env3\<lparr>JOBS := updateJobStatus (JOBS env3) (m_jobId message)
                                        Completed
                                        (noFields\<lparr>p_completed_at := Some (rt_now rt 2)\<rparr>)
                                        (rt_now rt 3)\<rparr>
                           in (env4, Inr ()))))
         | _ \<Rightarrow> (env1, Inl (js ''Document or config not found for job '' @ m_jobId message)))"

text \<open>\<open>if (webhookUrl)\<close>: a webhook is called when the URL is there and not empty.\<close>

definition notify ::
  "jsstring option \<Rightarrow> jsstring \<Rightarrow> Status \<Rightarrow> jsstring \<Rightarrow> jsstring option \<Rightarrow> Webhook list" where
  "notify url job st time err =
     (case url of
        None \<Rightarrow> []
      | Some u \<Rightarrow>
          if u = [] then []
          else [\<lparr>hook_url = u, hook_job_id = job, hook_status = st, hook_at = time,
                 hook_error = err\<rparr>])"

text \<open>
  One turn of the loop of \<open>queue\<close>: the \<open>try\<close> block, then either the webhook and \<open>ack\<close>,
  or the \<open>catch\<close> block, which writes the failed status and asks for a retry. A webhook
  that fails is ignored by the program, so the posts are only listed.
\<close>

definition processMessage ::
  "Runtime \<Rightarrow> QueueMessage \<Rightarrow> Env \<Rightarrow> Env \<times> Webhook list \<times> Disposition" where
  "processMessage rt message env =
     (case tryReview rt message env of
        (env', Inr u) \<Rightarrow>
          (env', notify (m_webhookUrl message) (m_jobId message) Completed (rt_now rt 4) None, Ack)
      | (env', Inl e) \<Rightarrow>
          (env'\<lparr>JOBS := updateJobStatus (JOBS env') (m_jobId message) Failed
                   (noFields\<lparr>p_failed_at := Some (rt_now rt 2), p_error := Some e\<rparr>)
                   (rt_now rt 3)\<rparr>,
           notify (m_webhookUrl message) (m_jobId message) Failed (rt_now rt 4) (Some e),
           Retry))"

text \<open>
  \<open>queue\<close>: the messages of a batch are handled one after the other; \<open>rts i\<close> is what the
  consumer takes from outside while it handles message \<open>i\<close> of the batch.
\<close>

fun queueFrom ::
  "(nat \<Rightarrow> Runtime) \<Rightarrow> nat \<Rightarrow> QueueMessage list \<Rightarrow> Env
     \<Rightarrow> Env \<times> (Webhook list \<times> Disposition) list" where
  "queueFrom rts i [] env = (env, [])"
| "queueFrom rts i (message # rest) env =
     (case processMessage (rts i) message env of
        (env', hooks, disposition) \<Rightarrow>
          (case queueFrom rts (Suc i) rest env' of
             (env'', outcomes) \<Rightarrow> (env'', (hooks, disposition) # outcomes)))"

definition queue ::
  "(nat \<Rightarrow> Runtime) \<Rightarrow> QueueMessage list \<Rightarrow> Env
     \<Rightarrow> Env \<times> (Webhook list \<times> Disposition) list" where
  "queue rts batch env = queueFrom rts 0 batch env"

text \<open>The statuses written for a job, the earliest first.\<close>

definition statusHistory :: "KV \<Rightarrow> jsstring \<Rightarrow> Status list" where
  "statusHistory kv job = map (\<lambda>(k, v). status v) (filter (\<lambda>(k, v). k = jobKey job) (rev kv))"




section \<open>Ingress (workers/ingress/src/index.ts)\<close>

text \<open>The body of a request once \<open>c.req.json()\<close> has parsed it; an object has each key once.\<close>

datatype Json =
    JNull
  | JBool bool
  | JNumber real
  | JString jsstring
  | JArray "Json list"
  | JObject "(jsstring \<times> Json) list"

text \<open>\<open>z.string()\<close> and \<open>z.object(...)\<close> at a value that may be missing.\<close>

fun zString :: "Json option \<Rightarrow> jsstring option" where
  "zString (Some (JString s)) = Some s"
| "zString other = None"

fun zObject :: "Json option \<Rightarrow> (jsstring \<times> Json) list option" where
  "zObject (Some (JObject members)) = Some members"
| "zObject other = None"

definition roleInstructionsSchema :: "Json option \<Rightarrow> RoleInstructions option" where
  "roleInstructionsSchema j =
     (case zObject j of
        None \<Rightarrow> None
      | Some members \<Rightarrow>
          (case (zString (map_of members (js ''CTO'')), zString (map_of members (js ''CPO'')),
                 zString (map_of members (js ''COO'')), zString (map_of members (js ''CISO'')),
                 zString (map_of members (js ''CEO''))) of
             (Some cto, Some cpo, Some coo, Some ciso, Some ceo) \<Rightarrow>
               Some \<lparr>CTO_text = cto, CPO_text = cpo, COO_text = coo, CISO_text = ciso,
                     CEO_text = ceo\<rparr>
           | _ \<Rightarrow> None))"

definition configSchema :: "Json option \<Rightarrow> Config option" where
  "configSchema j =
     (case zObject j of
        None \<Rightarrow> None
      | Some members \<Rightarrow>
          (case (zString (map_of members (js ''executive_model'')),
                 zString (map_of members (js ''ceo_model'')),
                 zString (map_of members (js ''operational_context'')),
                 roleInstructionsSchema (map_of members (js ''custom_role_instructions''))) of
             (Some em, Some cm, Some oc, Some ri) \<Rightarrow>
               Some \<lparr>executive_model = em, ceo_model = cm, operational_context = oc,
                     custom_role_instructions = ri\<rparr>
           | _ \<Rightarrow> None))"

text \<open>
  \<open>reviewRequestSchema.parse\<close>: \<open>None\<close> when it throws a \<open>ZodError\<close>. Whether a string is a
  URL is decided by the validation library (\<open>isUrl\<close>).
\<close>

definition reviewRequestSchema :: "(jsstring \<Rightarrow> bool) \<Rightarrow> Json \<Rightarrow> ReviewRequest option" where
  "reviewRequestSchema isUrl body =
     (case zObject (Some body) of
        None \<Rightarrow> None
      | Some members \<Rightarrow>
          (case zString (map_of members (js ''document'')) of
             None \<Rightarrow> None
           | Some d \<Rightarrow>
               if \<not> (1 \<le> length d \<and> length d \<le> 100000) then None
               else (case configSchema (map_of members (js ''config'')) of
                       None \<Rightarrow> None
                     | Some cfg \<Rightarrow>
                         (case map_of members (js ''webhook_url'') of
                            None \<Rightarrow> Some \<lparr>r_document = d, r_config = cfg, r_webhook_url = None\<rparr>
                          | Some w \<Rightarrow>
                              (case zString (Some w) of
                                 None \<Rightarrow> None
                               | Some u \<Rightarrow>
                                   if isUrl u
                                   then Some \<lparr>r_document = d, r_config = cfg,
                                              r_webhook_url = Some u\<rparr>
                                   else None)))))"

datatype Reply =
    Accepted202 jsstring jsstring
  | Invalid400
  | Internal500 jsstring

text \<open>
  \<open>POST /api/review\<close>. \<open>body\<close> is the outcome of \<open>c.req.json()\<close> (\<open>Inl\<close> when the body is not
  JSON), \<open>uuid\<close> the value of \<open>crypto.randomUUID()\<close>, \<open>timestamp\<close> the reading of the clock
  and \<open>stringify\<close> is \<open>JSON.stringify\<close> on a config.
\<close>

definition postReview ::
  "(jsstring \<Rightarrow> bool) \<Rightarrow> (Config \<Rightarrow> jsstring) \<Rightarrow> jsstring \<Rightarrow> jsstring \<Rightarrow> jsstring + Json
     \<Rightarrow> Env \<Rightarrow> Env \<times> Reply" where
  "postReview isUrl stringify uuid timestamp body env =
     (case body of
        Inl e \<Rightarrow> (env, Internal500 e)
      | Inr parsed \<Rightarrow>
          (case reviewRequestSchema isUrl parsed of
             None \<Rightarrow> (env, Invalid400)
           | Some validated \<Rightarrow>
               (let jobId = uuid;
                    storage1 = (STORAGE env)
                       (js ''documents/'' @ jobId @ js ''.md'' \<mapsto> r_document validated);
                    storage2 = storage1
                       (js ''configs/'' @ jobId @ js ''.json'' \<mapsto> stringify (r_config validated));
                    jobStatus = \<lparr>id_field = jobId, status = Queued, created_at = timestamp,
                       started_at = None, completed_at = None, failed_at = None, error = None,
                       webhook_url = r_webhook_url validated, progress = None\<rparr>;
                    jobs = kvPut (JOBS env) (jobKey jobId) jobStatus;
                    message = \<lparr>m_jobId = jobId,
                       m_documentKey = js ''documents/'' @ jobId @ js ''.md'',
                       m_configKey = js ''configs/'' @ jobId @ js ''.json'',
                       m_webhookUrl = r_webhook_url validated\<rparr>
                in (env\<lparr>STORAGE := storage2, JOBS := jobs,
                         REVIEW_QUEUE := REVIEW_QUEUE env @ [message]\<rparr>,
                    Accepted202 jobId timestamp))))"

section \<open>The environments the workers produce\<close>

text \<open>
  From the empty environment, by submissions and by deliveries of messages. A reading of
  the clock is an ISO timestamp, so it is not the empty string.
\<close>

inductive reachable :: "Env \<Rightarrow> bool" where
  start: "reachable \<lparr>STORAGE = Map.empty, JOBS = [], REVIEW_QUEUE = []\<rparr>"
| submit: "reachable env \<Longrightarrow> timestamp \<noteq> [] \<Longrightarrow>
     reachable (fst (postReview isUrl stringify uuid timestamp body env))"
| deliver: "reachable env \<Longrightarrow> \<forall>n. rt_now rt n \<noteq> [] \<Longrightarrow>
     reachable (fst (processMessage rt message env))"

text \<open>Every record of the status store has a \<open>created_at\<close> that is not empty.\<close>

definition stamped :: "KV \<Rightarrow> bool" where
  "stamped kv \<longleftrightarrow> (\<forall>(k, r) \<in> set kv. created_at r \<noteq> [])"

section \<open>Example inputs\<close>

definition exampleConfig :: Config where
  "exampleConfig =
     \<lparr>executive_model = js ''openrouter:exec-model'',
      ceo_model = js ''anthropic:ceo-model'',
      operational_context = js ''Series A startup'',
      custom_role_instructions =
        \<lparr>CTO_text = js ''You are the CTO.'', CPO_text = js ''You are the CPO.'',
         COO_text = js ''You are the COO.'', CISO_text = js ''You are the CISO.'',
         CEO_text = js ''You are the CEO.''\<rparr>\<rparr>"

text \<open>A provider that answers every call, call \<open>k\<close> with the text \<open>f k\<close>.\<close>

definition answering :: "(callId \<Rightarrow> jsstring) \<Rightarrow> fetcher" where
  "answering f =
     (\<lambda>k provider modelName prompt temperature.
        Inr \<lparr>ok = True, http_status = 200, body_text = [], generated = Inr (f k)\<rparr>)"

text \<open>A provider that answers 503 to the second call of stage 1.\<close>

definition busyOnce :: fetcher where
  "busyOnce =
     (\<lambda>k provider modelName prompt temperature.
        if k = (1, 1)
        then Inr \<lparr>ok = False, http_status = 503, body_text = js ''busy'', generated = Inl []\<rparr>
        else Inr \<lparr>ok = True, http_status = 200, body_text = [], generated = Inr (js ''Fine.'')\<rparr>)"

text \<open>
  The result of the example run in which CPO asks CTO a question in stage 2, and of the
  run in which nobody asks anything.
\<close>

definition fineRecords :: "StageResponse list" where
  "fineRecords =
     [\<lparr>role = js ''CPO'', response = js ''Fine.''\<rparr>,
      \<lparr>role = js ''CTO'', response = js ''Fine.''\<rparr>,
      \<lparr>role = js ''COO'', response = js ''Fine.''\<rparr>,
      \<lparr>role = js ''CISO'', response = js ''Fine.''\<rparr>]"

definition resultWithQuestion :: ReviewResult where
  "resultWithQuestion =
     \<lparr>stage1 = fineRecords,
      stage2 = [\<lparr>role = js ''CPO'', response = js ''Question to CTO: why?''\<rparr>,
                \<lparr>role = js ''CTO'', response = js ''Fine.''\<rparr>,
                \<lparr>role = js ''COO'', response = js ''Fine.''\<rparr>,
                \<lparr>role = js ''CISO'', response = js ''Fine.''\<rparr>],
      stage3 = [\<lparr>role = js ''CTO'', response = js ''Fine.''\<rparr>],
      synthesis = js ''Fine.''\<rparr>"

definition quietResult :: ReviewResult where
  "quietResult =
     \<lparr>stage1 = fineRecords, stage2 = fineRecords, stage3 = [], synthesis = js ''Fine.''\<rparr>"

definition askingCTO :: fetcher where
  "askingCTO = answering (\<lambda>k. if k = (2, 0) then js ''Question to CTO: why?'' else js ''Fine.'')"

definition allFine :: fetcher where
  "allFine = answering (\<lambda>k. js ''Fine.'')"

text \<open>
  A request with the example config, the environment after its submission as job
  \<open>job-1\<close>, the queue message of the job, and a consumer runtime. JSON is outside the
  program: in the examples a stored config reads back as the example config, and a
  result is written as its synthesis.
\<close>

definition exampleBody :: "jsstring \<Rightarrow> Json" where
  "exampleBody doc =
     JObject
       [(js ''document'', JString doc),
        (js ''config'', JObject
           [(js ''executive_model'', JString (js ''openrouter:exec-model'')),
            (js ''ceo_model'', JString (js ''anthropic:ceo-model'')),
            (js ''operational_context'', JString (js ''Series A startup'')),
            (js ''custom_role_instructions'', JObject
               [(js ''CTO'', JString (js ''You are the CTO.'')),
                (js ''CPO'', JString (js ''You are the CPO.'')),
                (js ''COO'', JString (js ''You are the COO.'')),
                (js ''CISO'', JString (js ''You are the CISO.'')),
                (js ''CEO'', JString (js ''You are the CEO.''))])])]"

definition emptyEnv :: Env where
  "emptyEnv = \<lparr>STORAGE = Map.empty, JOBS = [], REVIEW_QUEUE = []\<rparr>"

definition exampleMessage :: QueueMessage where
  "exampleMessage =
     \<lparr>m_jobId = js ''job-1'', m_documentKey = js ''documents/job-1.md'',
      m_configKey = js ''configs/job-1.json'', m_webhookUrl = None\<rparr>"

definition submittedEnv :: Env where
  "submittedEnv =
     \<lparr>STORAGE = [js ''documents/job-1.md'' \<mapsto> js ''The plan.'',
                 js ''configs/job-1.json'' \<mapsto> js ''{config}''],
      JOBS = [(js ''job:job-1'',
               \<lparr>id_field = js ''job-1'', status = Queued, created_at = js ''2025-01-15T10:30:00.000Z'',
                started_at = None, completed_at = None, failed_at = None, error = None,
                webhook_url = None, progress = None\<rparr>)],
      REVIEW_QUEUE = [exampleMessage]\<rparr>"

definition exampleRuntime :: "fetcher \<Rightarrow> Runtime" where
  "exampleRuntime fetch =
     \<lparr>rt_fetch = fetch, rt_settle = (\<lambda>n. []),
      rt_now = (\<lambda>n. js ''2025-01-15T10:31:00.000Z''),
      rt_parseConfig = (\<lambda>text. Inr exampleConfig),
      rt_stringify = (\<lambda>result. synthesis result)\<rparr>"


section \<open>Properties of the string operations\<close>

lemma startsWith_iff: "startsWith s p \<longleftrightarrow> (\<exists>b. s = p @ b)"
  by (induction s p rule: startsWith.induct) auto

lemma includes_str_iff: "includes_str s p \<longleftrightarrow> (\<exists>a b. s = a @ p @ b)"
proof (induction s)
  case Nil
  then show ?case by auto
next
  case (Cons c s)
  show ?case
  proof
    assume "includes_str (c # s) p"
    then consider "startsWith (c # s) p" | "includes_str s p" by auto
    then show "\<exists>a b. c # s = a @ p @ b"
    proof cases
      case 1
      then obtain b where "c # s = p @ b" by (auto simp: startsWith_iff)
      then have "c # s = [] @ p @ b" by simp
      then show ?thesis by blast
    next
      case 2
      then obtain a b where "s = a @ p @ b" using Cons.IH by blast
      then have "c # s = (c # a) @ p @ b" by simp
      then show ?thesis by blast
    qed
  next
    assume "\<exists>a b. c # s = a @ p @ b"
    then obtain a b where ab: "c # s = a @ p @ b" by blast
    show "includes_str (c # s) p"
    proof (cases a)
      case Nil
      with ab have "startsWith (c # s) p" by (auto simp: startsWith_iff)
      then show ?thesis by simp
    next
      case (Cons x a')
      with ab have "s = a' @ p @ b" by simp
      then have "includes_str s p" using Cons.IH by blast
      then show ?thesis by simp
    qed
  qed
qed

lemma indexOf_ge_iff: "0 \<le> indexOf s p \<longleftrightarrow> includes_str s p"
  by (induction s) (auto simp: Let_def)

lemma indexOf_range: "- 1 \<le> indexOf s p"
  by (induction s) (auto simp: Let_def)

lemma toUpperCase_append: "toUpperCase (a @ b) = toUpperCase a @ toUpperCase b"
  by (simp add: toUpperCase_def)

lemma split_nonempty: "split s sep \<noteq> []"
  by (induction s) (auto split: list.splits)

lemma join_split: "join [sep] (split s sep) = s"
proof (induction s)
  case Nil
  then show ?case by simp
next
  case (Cons c s)
  obtain h t where ht: "split s sep = h # t"
    using split_nonempty [of s sep] by (cases "split s sep") auto
  with Cons show ?case by (cases t) auto
qed

lemma join_part: "l \<in> set xs \<Longrightarrow> \<exists>a b. join sep xs = a @ l @ b"
proof (induction sep xs rule: join.induct)
  case (1 sep)
  then show ?case by simp
next
  case (2 sep x)
  then have "join sep [x] = [] @ l @ []" by simp
  then show ?case by blast
next
  case (3 sep x y ys)
  from "3.prems" consider "l = x" | "l \<in> set (y # ys)" by auto
  then show ?case
  proof cases
    case 1
    then have "join sep (x # y # ys) = [] @ l @ (sep @ join sep (y # ys))" by simp
    then show ?thesis by blast
  next
    case 2
    then obtain a b where "join sep (y # ys) = a @ l @ b" using "3.IH" by blast
    then have "join sep (x # y # ys) = (x @ sep @ a) @ l @ b" by simp
    then show ?thesis by blast
  qed
qed

lemma split_part: "l \<in> set (split s sep) \<Longrightarrow> \<exists>a b. s = a @ l @ b"
  using join_part [of l "split s sep" "[sep]"] by (simp add: join_split)

lemma includes_str_line:
  assumes "l \<in> set (split content sep)" and "includes_str (toUpperCase l) q"
  shows "includes_str (toUpperCase content) q"
proof -
  obtain a b where "content = a @ l @ b" using assms(1) split_part by blast
  then have u: "toUpperCase content = toUpperCase a @ toUpperCase l @ toUpperCase b"
    by (simp add: toUpperCase_append)
  obtain x y where "toUpperCase l = x @ q @ y" using assms(2) by (auto simp: includes_str_iff)
  with u have "toUpperCase content = (toUpperCase a @ x) @ q @ (y @ toUpperCase b)" by simp
  then show ?thesis unfolding includes_str_iff by blast
qed

lemma includes_str_prefix: "includes_str s (p @ t) \<Longrightarrow> includes_str s p"
proof -
  assume "includes_str s (p @ t)"
  then obtain a b where "s = a @ (p @ t) @ b" by (auto simp: includes_str_iff)
  then have "s = a @ p @ (t @ b)" by simp
  then show ?thesis unfolding includes_str_iff by blast
qed

lemma firstMatch_Some_iff:
  "firstMatch line lu ps \<noteq> None \<longleftrightarrow> (\<exists>p \<in> set ps. includes_str lu (toUpperCase p))"
  by (induction ps) (auto simp: Let_def)

lemma lineQuestions_nonempty_iff:
  "lineQuestions resp t line \<noteq> [] \<longleftrightarrow>
     (\<exists>p \<in> set (targetPatterns t). includes_str (toUpperCase line) (toUpperCase p))"
  using firstMatch_Some_iff [of line "toUpperCase line" "targetPatterns t"]
  by (auto simp: lineQuestions_def split: option.splits)

lemma responseQuestions_nonempty_iff:
  "responseQuestions resp t \<noteq> [] \<longleftrightarrow>
     (\<exists>line \<in> set (split (orElse (response resp) []) 10).
        \<exists>p \<in> set (targetPatterns t). includes_str (toUpperCase line) (toUpperCase p))"
  by (simp add: responseQuestions_def Let_def lineQuestions_nonempty_iff)

lemma question_head: "q \<in> set (lineQuestions resp t line) \<Longrightarrow> \<exists>r. q = 70 # r"
  by (auto simp: lineQuestions_def js_def split: option.splits)

lemma join_head: "xs \<noteq> [] \<Longrightarrow> hd xs = c # r \<Longrightarrow> \<exists>r'. join sep xs = c # r'"
  by (induction sep xs rule: join.induct) auto

lemma setAdd_set: "set (setAdd s x) = insert x (set s)"
  by (auto simp: setAdd_def)

lemma setAdd_distinct: "distinct s \<Longrightarrow> distinct (setAdd s x)"
  by (auto simp: setAdd_def)

lemma fold_roles_set:
  "set (fold (\<lambda>r acc. if P r then setAdd acc r else acc) rs acc) = set acc \<union> {r \<in> set rs. P r}"
  by (induction rs arbitrary: acc) (auto simp: setAdd_set)

lemma fold_roles_distinct:
  "distinct acc \<Longrightarrow> distinct (fold (\<lambda>r acc. if P r then setAdd acc r else acc) rs acc)"
  by (induction rs arbitrary: acc) (auto simp: setAdd_distinct)

lemma allRoles_all: "r \<in> set allRoles"
  by (cases r) (simp_all add: allRoles_def)

lemma scanResponse_set:
  "set (scanResponse resp acc) =
     set acc \<union> {r. mentions (toUpperCase (orElse (response resp) [])) r}"
  by (auto simp: scanResponse_def Let_def fold_roles_set allRoles_all)

lemma scanResponse_distinct: "distinct acc \<Longrightarrow> distinct (scanResponse resp acc)"
  by (simp add: scanResponse_def Let_def fold_roles_distinct)

lemma fold_scanResponse_set:
  "set (fold scanResponse rs acc) =
     set acc \<union> {r. \<exists>resp \<in> set rs. mentions (toUpperCase (orElse (response resp) [])) r}"
  by (induction rs arbitrary: acc) (auto simp: scanResponse_set)

lemma fold_scanResponse_distinct: "distinct acc \<Longrightarrow> distinct (fold scanResponse rs acc)"
  by (induction rs arbitrary: acc) (auto simp: scanResponse_distinct)

lemma getExecutivesWithQuestions_iff:
  "r \<in> set (getExecutivesWithQuestions rs) \<longleftrightarrow>
     (\<exists>resp \<in> set rs. mentions (toUpperCase (orElse (response resp) [])) r)"
  by (simp add: getExecutivesWithQuestions_def fold_scanResponse_set)

lemma getExecutivesWithQuestions_distinct: "distinct (getExecutivesWithQuestions rs)"
  by (simp add: getExecutivesWithQuestions_def fold_scanResponse_distinct)

lemma extract_sentinel_iff:
  "extractDirectedQuestions rs t = noQuestions \<longleftrightarrow> (\<forall>resp \<in> set rs. responseQuestions resp t = [])"
proof -
  let ?qs = "concat (map (\<lambda>resp. responseQuestions resp t) rs)"
  show ?thesis
  proof (cases "?qs = []")
    case True
    then show ?thesis by (auto simp: extractDirectedQuestions_def Let_def)
  next
    case False
    then obtain q qs where qs: "?qs = q # qs" by (cases ?qs) auto
    then have "q \<in> set ?qs" by simp
    then obtain resp line where "q \<in> set (lineQuestions resp t line)"
      by (auto simp: responseQuestions_def Let_def)
    then obtain r where "q = 70 # r" using question_head by blast
    with qs have "\<exists>r'. join (js ''\<newline>\<newline>'') ?qs = 70 # r'"
      by (intro join_head [where r = r]) simp_all
    then obtain r' where j: "join (js ''\<newline>\<newline>'') ?qs = 70 # r'" by blast
    have "join (js ''\<newline>\<newline>'') ?qs \<noteq> noQuestions"
    proof
      assume "join (js ''\<newline>\<newline>'') ?qs = noQuestions"
      with j have "hd noQuestions = 70" by (metis list.sel(1))
      then show False by (simp add: noQuestions_def js_def)
    qed
    with False show ?thesis by (auto simp: extractDirectedQuestions_def Let_def)
  qed
qed

lemma upper_targetPatterns:
  "map toUpperCase (targetPatterns (roleName r)) =
     map (\<lambda>(q, c). q @ c) (zip (rolePatterns r) [js '':'', js '':'', [], js '':''])"
  by (cases r) (simp_all add: targetPatterns_def rolePatterns_def js_def toUpperCase_def upperUnit_def)

lemma strict_pattern_mentions:
  assumes "p \<in> set (targetPatterns (roleName r))" and "includes_str s (toUpperCase p)"
  shows "mentions s r"
proof -
  from assms(1) have "toUpperCase p \<in> set (map toUpperCase (targetPatterns (roleName r)))"
    by simp
  then obtain q c where "q \<in> set (rolePatterns r)" and "toUpperCase p = q @ c"
    unfolding upper_targetPatterns by (auto dest: set_zip_leftD)
  with assms(2) have "q \<in> set (rolePatterns r) \<and> includes_str s q"
    using includes_str_prefix by metis
  then show ?thesis by (auto simp: mentions_def list_ex_iff)
qed

lemma extract_never_empty: "extractDirectedQuestions rs t \<noteq> []"
proof (cases "concat (map (\<lambda>resp. responseQuestions resp t) rs) = []")
  case True
  then show ?thesis by (simp add: extractDirectedQuestions_def noQuestions_def js_def)
next
  case False
  then obtain q qs where qs: "concat (map (\<lambda>resp. responseQuestions resp t) rs) = q # qs"
    by (cases "concat (map (\<lambda>resp. responseQuestions resp t) rs)") auto
  then have "q \<in> set (concat (map (\<lambda>resp. responseQuestions resp t) rs))" by simp
  then obtain resp line where "q \<in> set (lineQuestions resp t line)"
    by (auto simp: responseQuestions_def Let_def)
  then obtain r where "q = 70 # r" using question_head by blast
  with qs have "\<exists>r'. join (js ''\<newline>\<newline>'') (q # qs) = 70 # r'"
    by (intro join_head [where r = r]) simp_all
  with qs False show ?thesis by (auto simp: extractDirectedQuestions_def Let_def)
qed

section \<open>What a captured line holds\<close>

lemma lineQuestions_at_most_one: "length (lineQuestions resp t line) \<le> 1"
  by (simp add: lineQuestions_def split: option.splits)

lemma indexOf_first:
  "0 \<le> indexOf s p \<Longrightarrow>
     startsWith (drop (nat (indexOf s p)) s) p
     \<and> (\<forall>j < nat (indexOf s p). \<not> startsWith (drop j s) p)"
proof (induction s)
  case Nil
  then show ?case by (auto split: if_splits)
next
  case (Cons c s)
  show ?case
  proof (cases "startsWith (c # s) p")
    case True
    then show ?thesis by simp
  next
    case False
    with Cons.prems have i: "0 \<le> indexOf s p" and e: "indexOf (c # s) p = indexOf s p + 1"
      by (auto simp: Let_def split: if_splits)
    from i have n: "nat (indexOf s p + 1) = Suc (nat (indexOf s p))" by simp
    from Cons.IH [OF i] have a: "startsWith (drop (nat (indexOf s p)) s) p"
      and b: "\<forall>j < nat (indexOf s p). \<not> startsWith (drop j s) p" by simp_all
    have "\<not> startsWith (drop j (c # s)) p" if "j < Suc (nat (indexOf s p))" for j
      using that False b by (cases j) auto
    with a show ?thesis unfolding e n by simp
  qed
qed

lemma toUpperCase_drop:
  "\<forall>c \<in> set s. length (upperUnit c) = 1 \<Longrightarrow> toUpperCase (drop i s) = drop i (toUpperCase s)"
proof (induction s arbitrary: i)
  case Nil
  then show ?case by (simp add: toUpperCase_def)
next
  case (Cons c s)
  then obtain x where x: "upperUnit c = [x]"
    by (cases "upperUnit c") auto
  show ?case
  proof (cases i)
    case 0
    then show ?thesis by simp
  next
    case (Suc k)
    have "toUpperCase (drop k s) = drop k (toUpperCase s)" using Cons by simp
    with Suc x show ?thesis by (simp add: toUpperCase_def)
  qed
qed

lemma firstMatch_priority:
  "firstMatch line lu ps = Some q \<Longrightarrow>
     \<exists>pre p post. ps = pre @ p # post
       \<and> (\<forall>p' \<in> set pre. \<not> includes_str lu (toUpperCase p'))
       \<and> includes_str lu (toUpperCase p)
       \<and> q = substring line (indexOf lu (toUpperCase p))"
proof (induction ps)
  case Nil
  then show ?case by simp
next
  case (Cons a ps)
  show ?case
  proof (cases "includes_str lu (toUpperCase a)")
    case True
    with Cons.prems have "q = substring line (indexOf lu (toUpperCase a))" by (simp add: Let_def)
    with True have "a # ps = [] @ a # ps \<and> (\<forall>p' \<in> set []. \<not> includes_str lu (toUpperCase p'))
       \<and> includes_str lu (toUpperCase a) \<and> q = substring line (indexOf lu (toUpperCase a))"
      by simp
    then show ?thesis by blast
  next
    case False
    with Cons.prems have "firstMatch line lu ps = Some q" by simp
    from Cons.IH [OF this] obtain pre p post where h: "ps = pre @ p # post"
      "\<forall>p' \<in> set pre. \<not> includes_str lu (toUpperCase p')"
      "includes_str lu (toUpperCase p)" "q = substring line (indexOf lu (toUpperCase p))"
      by blast
    with False have "a # ps = (a # pre) @ p # post
       \<and> (\<forall>p' \<in> set (a # pre). \<not> includes_str lu (toUpperCase p'))
       \<and> includes_str lu (toUpperCase p) \<and> q = substring line (indexOf lu (toUpperCase p))"
      by simp
    then show ?thesis by blast
  qed
qed

text \<open>
  Where upper-casing keeps every character of the line one code unit long (all of ASCII
  does), the captured text is the line from the first occurrence, whatever the case, of
  the first pattern in the list that occurs in the line.
\<close>

lemma captured_from_first_occurrence:
  assumes "\<forall>c \<in> set line. length (upperUnit c) = 1"
    and "firstMatch line (toUpperCase line) ps = Some q"
  shows "\<exists>pre p post i. ps = pre @ p # post
       \<and> (\<forall>p' \<in> set pre. \<not> includes_str (toUpperCase line) (toUpperCase p'))
       \<and> q = drop i line
       \<and> startsWith (toUpperCase q) (toUpperCase p)
       \<and> (\<forall>j < i. \<not> startsWith (toUpperCase (drop j line)) (toUpperCase p))"
proof -
  from firstMatch_priority [OF assms(2)] obtain pre p post where h: "ps = pre @ p # post"
      "\<forall>p' \<in> set pre. \<not> includes_str (toUpperCase line) (toUpperCase p')"
      "includes_str (toUpperCase line) (toUpperCase p)"
      "q = substring line (indexOf (toUpperCase line) (toUpperCase p))"
    by blast
  let ?i = "nat (indexOf (toUpperCase line) (toUpperCase p))"
  have "0 \<le> indexOf (toUpperCase line) (toUpperCase p)" using h(3) by (simp add: indexOf_ge_iff)
  from indexOf_first [OF this]
  have a: "startsWith (drop ?i (toUpperCase line)) (toUpperCase p)"
    and b: "\<forall>j < ?i. \<not> startsWith (drop j (toUpperCase line)) (toUpperCase p)" by simp_all
  have q: "q = drop ?i line" using h(4) by (simp add: substring_def)
  have "startsWith (toUpperCase q) (toUpperCase p)"
    unfolding q using a by (simp add: toUpperCase_drop [OF assms(1)])
  moreover have "\<forall>j < ?i. \<not> startsWith (toUpperCase (drop j line)) (toUpperCase p)"
    using b by (simp add: toUpperCase_drop [OF assms(1)])
  ultimately show ?thesis using h(1,2) q by blast
qed

lemma ascii_single_unit: "c < 128 \<Longrightarrow> length (upperUnit c) = 1"
  by (simp add: upperUnit_def)

section \<open>The two pattern sets of the router\<close>

text \<open>
  C1, as stated: for every list of stage-2 records and every reviewer role,
  \<open>extractDirectedQuestions\<close> returns something other than the sentinel if and only if
  the role is in \<open>getExecutivesWithQuestions\<close>. This fails: a record that says
  \<open>@CTO please reply\<close> puts CTO in the set, since \<open>getExecutivesWithQuestions\<close> looks for
  \<open>@CTO\<close>, and gives CTO no question, since \<open>extractDirectedQuestions\<close> looks for \<open>@CTO:\<close>.
\<close>

theorem extract_vs_executives_counterexample:
  "extractDirectedQuestions
      [\<lparr>role = js ''CPO'', response = js ''@CTO please reply''\<rparr>] (roleName CTO)
     = js ''No questions directed to your role.''
   \<and> getExecutivesWithQuestions
      [\<lparr>role = js ''CPO'', response = js ''@CTO please reply''\<rparr>] = [CTO]
   \<and> \<not> ((extractDirectedQuestions
          [\<lparr>role = js ''CPO'', response = js ''@CTO please reply''\<rparr>] (roleName CTO)
            \<noteq> noQuestions)
        \<longleftrightarrow> CTO \<in> set (getExecutivesWithQuestions
          [\<lparr>role = js ''CPO'', response = js ''@CTO please reply''\<rparr>]))"
  by code_simp

text \<open>
  C1, amended: for every list of stage-2 records and every reviewer role, if
  \<open>extractDirectedQuestions\<close> returns something other than the sentinel then the role is
  in \<open>getExecutivesWithQuestions\<close>; the set may hold more roles than have a question.
\<close>

theorem extract_implies_executive:
  assumes "extractDirectedQuestions rs (roleName r) \<noteq> noQuestions"
  shows "r \<in> set (getExecutivesWithQuestions rs)"
proof -
  from assms obtain resp where resp: "resp \<in> set rs" "responseQuestions resp (roleName r) \<noteq> []"
    by (auto simp: extract_sentinel_iff)
  then obtain line p where lp: "line \<in> set (split (orElse (response resp) []) 10)"
      "p \<in> set (targetPatterns (roleName r))"
      "includes_str (toUpperCase line) (toUpperCase p)"
    by (auto simp: responseQuestions_nonempty_iff)
  then have "includes_str (toUpperCase (orElse (response resp) [])) (toUpperCase p)"
    using includes_str_line by blast
  with lp(2) have "mentions (toUpperCase (orElse (response resp) [])) r"
    using strict_pattern_mentions by blast
  with resp(1) show ?thesis by (auto simp: getExecutivesWithQuestions_iff)
qed

text \<open>
  C1, amended, at a record of CPO that asks CTO a question in the format of the stage-2
  prompt: the question is extracted and CTO is in the set.
\<close>

theorem extract_implies_executive_witness:
  "extractDirectedQuestions
      [\<lparr>role = js ''CPO'', response = js ''Question to CTO: will this scale?''\<rparr>] (roleName CTO)
     = js ''From CPO: Question to CTO: will this scale?''
   \<and> CTO \<in> set (getExecutivesWithQuestions
      [\<lparr>role = js ''CPO'', response = js ''Question to CTO: will this scale?''\<rparr>])"
proof -
  have v: "extractDirectedQuestions
      [\<lparr>role = js ''CPO'', response = js ''Question to CTO: will this scale?''\<rparr>] (roleName CTO)
     = js ''From CPO: Question to CTO: will this scale?''"
    by code_simp
  have "js ''From CPO: Question to CTO: will this scale?'' \<noteq> noQuestions"
    by code_simp
  with v have "extractDirectedQuestions
      [\<lparr>role = js ''CPO'', response = js ''Question to CTO: will this scale?''\<rparr>] (roleName CTO)
     \<noteq> noQuestions"
    by simp
  from extract_implies_executive [OF this] v show ?thesis by simp
qed

text \<open>
  C5 says that a captured line is rendered as \<open>From {authorRole}: \<close> followed by the text
  of the line from the first occurrence of the matched pattern. The code finds the index
  in the upper-cased line and cuts the line as written at that index; where upper-casing
  lengthens the text in front of the pattern the cut comes too late. With U+00DF (code
  unit 223, upper case \<open>SS\<close>) in front of \<open>Question to CTO:\<close> the first letter of the
  question is lost. The rest of C5 holds: the result is never empty, it is the sentinel
  exactly when no line holds a pattern, a line gives at most one question, and the
  patterns are tried in the order of the list (the lemmas above).
\<close>

theorem extract_index_after_sharp_s:
  "extractDirectedQuestions
      [\<lparr>role = js ''CPO'', response = 223 # js '' Question to CTO: why?''\<rparr>] (js ''CTO'')
     = js ''From CPO: uestion to CTO: why?''"
  by code_simp

section \<open>Properties of the engine\<close>

lemma firstRejection_None:
  "firstRejection ord outs = None \<Longrightarrow> i \<in> set ord \<Longrightarrow> i < length outs \<Longrightarrow> \<not> isl (outs ! i)"
  by (induction ord) (auto split: if_splits sum.splits)


lemma fulfilled_all: "\<forall>x \<in> set outs. \<not> isl x \<Longrightarrow> outs = map Inr (fulfilled outs)"
proof (induction outs)
  case Nil
  then show ?case by simp
next
  case (Cons x outs)
  then show ?case by (cases x) auto
qed

lemma promiseAll_Inr:
  assumes "promiseAll ord outs = Inr vs"
  shows "outs = map Inr vs"
proof -
  from assms have none: "firstRejection (ord @ [0..<length outs]) outs = None"
    and vs: "vs = fulfilled outs"
    by (auto simp: promiseAll_def split: option.splits)
  have "\<forall>x \<in> set outs. \<not> isl x"
  proof
    fix x assume "x \<in> set outs"
    then obtain i where "i < length outs" "outs ! i = x" by (auto simp: in_set_conv_nth)
    with firstRejection_None [OF none, of i] show "\<not> isl x" by simp
  qed
  with vs show ?thesis using fulfilled_all by blast
qed


lemma runTasks_calls: "fst (runTasks ord task xs) = map (\<lambda>x. fst (task x)) xs"
  by (simp add: runTasks_def Let_def)

lemma runTasks_Inr:
  "snd (runTasks ord task xs) = Inr rs \<Longrightarrow> map (\<lambda>x. snd (task x)) xs = map Inr rs"
  using promiseAll_Inr [of ord "map snd (map task xs)" rs] by (simp add: runTasks_def Let_def comp_def)


lemma answered_Inr:
  "snd (answered r c) = Inr v \<longleftrightarrow> (\<exists>t. call_result c = Inr t \<and> v = \<lparr>role = roleName r, response = t\<rparr>)"
  by (auto simp: answered_def split: sum.splits)


lemma answered_fst: "fst (answered r c) = c"
  by (simp add: answered_def)

text \<open>The three stage tasks have one shape.\<close>

lemma stage1Task_shape:
  "stage1Task fetch config doc =
     (\<lambda>(i, r). answered r (loggedQuery fetch (1, i) (stage1Prompt config doc r) (executive_model config) (7 / 10)))"
  by (simp add: stage1Task_def)

lemma stage2Task_shape:
  "stage2Task fetch config t1 =
     (\<lambda>(i, r). answered r (loggedQuery fetch (2, i) (stage2Prompt config t1 r) (executive_model config) (6 / 10)))"
  by (simp add: stage2Task_def)

lemma stage3Task_shape:
  "stage3Task fetch config t1 rs2 =
     (\<lambda>(i, r). answered r (loggedQuery fetch (3, i)
         (stage3Prompt config t1 (extractDirectedQuestions rs2 (roleName r)) r) (executive_model config) (7 / 10)))"
  by (simp add: stage3Task_def Let_def)

lemma tasks_roles:
  assumes "snd (runTasks ord (\<lambda>(i, r). answered r (mk i r)) (enumerate n roles)) = Inr rs"
  shows "map role rs = map roleName roles"
proof -
  have "map (\<lambda>x. snd ((\<lambda>(i, r). answered r (mk i r)) x)) (enumerate n roles) = map Inr rs"
    using runTasks_Inr [OF assms] .
  then have len: "length rs = length roles" 
    by (metis length_enumerate length_map)
  show ?thesis
  proof (rule nth_equalityI)
    show "length (map role rs) = length (map roleName roles)" using len by simp
  next
    fix i assume "i < length (map role rs)"
    then have i: "i < length roles" using len by simp
    have "map (\<lambda>x. snd ((\<lambda>(i, r). answered r (mk i r)) x)) (enumerate n roles) ! i = map Inr rs ! i"
      using \<open>map (\<lambda>x. snd ((\<lambda>(i, r). answered r (mk i r)) x)) (enumerate n roles) = map Inr rs\<close> by simp
    with i len have "snd (answered (roles ! i) (mk (n + i) (roles ! i))) = Inr (rs ! i)"
      by (simp add: nth_enumerate_eq)
    then have "role (rs ! i) = roleName (roles ! i)" by (auto simp: answered_Inr)
    with i len show "map role rs ! i = map roleName roles ! i" by simp
  qed
qed



lemma tasks_signature:
  assumes "c \<in> set (fst (runTasks ord (\<lambda>(i, r). answered r (loggedQuery fetch (n, i) (p r) m t)) xs))"
  shows "call_stage c = n \<and> call_model c = m \<and> call_temperature c = t"
  using assms by (auto simp: runTasks_calls answered_fst loggedQuery_def)

lemma tasks_length:
  "length (fst (runTasks ord task xs)) = length xs"
  by (simp add: runTasks_calls)

lemma reviewDocument_cases:
  fixes fetch settle config doc cb s0
  defines "run \<equiv> reviewDocument fetch settle config doc cb s0"
  defines "t1 \<equiv> stage1Calls fetch settle config doc"
  obtains
    (stage1_rejected) e where
      "snd t1 = Inl e" "run_result run = Inl e" "run_calls run = fst t1"
  | (stage2_rejected) r1 t2 e where
      "snd t1 = Inr r1"
      "t2 = stage2Calls fetch settle config (formatStage1Responses r1)"
      "snd t2 = Inl e" "run_result run = Inl e" "run_calls run = fst t1 @ fst t2"
  | (stage3_rejected) r1 t2 r2 t3 e where
      "snd t1 = Inr r1"
      "t2 = stage2Calls fetch settle config (formatStage1Responses r1)"
      "snd t2 = Inr r2"
      "getExecutivesWithQuestions r2 \<noteq> []"
      "t3 = stage3Calls fetch settle config (formatStage1Responses r1) r2
              (getExecutivesWithQuestions r2)"
      "snd t3 = Inl e" "run_result run = Inl e" "run_calls run = fst t1 @ fst t2 @ fst t3"
  | (stage4) r1 t2 r2 t3 r3 c4 where
      "snd t1 = Inr r1"
      "t2 = stage2Calls fetch settle config (formatStage1Responses r1)"
      "snd t2 = Inr r2"
      "t3 = (if getExecutivesWithQuestions r2 \<noteq> []
             then stage3Calls fetch settle config (formatStage1Responses r1) r2
                    (getExecutivesWithQuestions r2)
             else ([], Inr []))"
      "snd t3 = Inr r3"
      "c4 = loggedQuery fetch (4, 0)
              (stage4Prompt config doc (formatStage1Responses r1) (formatStage2Responses r2)
                 (if r3 \<noteq> [] then formatStage2Responses r3 else noResponses))
              (ceo_model config) (7 / 10)"
      "run_calls run = fst t1 @ fst t2 @ fst t3 @ [c4]"
      "run_result run =
         (case call_result c4 of
            Inl e \<Rightarrow> Inl e
          | Inr s \<Rightarrow> Inr \<lparr>stage1 = r1, stage2 = r2, stage3 = r3, synthesis = s\<rparr>)"
proof -
  obtain c1 o1 where s1: "stage1Calls fetch settle config doc = (c1, o1)" by fastforce
  show thesis
  proof (cases o1)
    case (Inl e)
    with s1 show thesis
      by (intro stage1_rejected [of e]) (simp_all add: run_def t1_def reviewDocument_def Let_def)
  next
    case r1: (Inr r1)
    obtain c2 o2 where s2:
      "stage2Calls fetch settle config (formatStage1Responses r1) = (c2, o2)" by fastforce
    show thesis
    proof (cases o2)
      case (Inl e)
      with s1 r1 s2 show thesis
        by (intro stage2_rejected [of r1 "stage2Calls fetch settle config (formatStage1Responses r1)" e])
           (simp_all add: run_def t1_def reviewDocument_def Let_def)
    next
      case r2: (Inr r2)
      define t3 where "t3 = (if getExecutivesWithQuestions r2 \<noteq> []
             then stage3Calls fetch settle config (formatStage1Responses r1) r2
                    (getExecutivesWithQuestions r2)
             else ([], Inr []))"
      obtain c3 o3 where s3: "t3 = (c3, o3)" by fastforce
      show thesis
      proof (cases o3)
        case (Inl e)
        with s3 have ne: "getExecutivesWithQuestions r2 \<noteq> []"
          by (auto simp: t3_def split: if_splits)
        with s3 have s3': "stage3Calls fetch settle config (formatStage1Responses r1) r2
                    (getExecutivesWithQuestions r2) = (c3, o3)" by (simp add: t3_def)
        from s1 r1 s2 r2 s3' Inl ne show thesis
          by (intro stage3_rejected [of r1 "stage2Calls fetch settle config (formatStage1Responses r1)" r2 "stage3Calls fetch settle config (formatStage1Responses r1) r2 (getExecutivesWithQuestions r2)" e])
             (simp_all add: run_def t1_def reviewDocument_def Let_def)
      next
        case r3: (Inr r3)
        from s1 r1 s2 r2 s3 r3 show thesis
          by (intro stage4 [of r1 "stage2Calls fetch settle config (formatStage1Responses r1)" r2 t3 r3 "loggedQuery fetch (4, 0) (stage4Prompt config doc (formatStage1Responses r1) (formatStage2Responses r2) (if r3 \<noteq> [] then formatStage2Responses r3 else noResponses)) (ceo_model config) (7 / 10)"])
             (auto simp add: run_def t1_def t3_def reviewDocument_def Let_def
                split: if_splits sum.splits)
      qed
    qed
  qed
qed

lemma stage1Calls_shape:
  "stage1Calls fetch settle config doc =
     runTasks (settle 1)
       (\<lambda>(i, r). answered r (loggedQuery fetch (1, i) (stage1Prompt config doc r)
                                (executive_model config) (7 / 10)))
       (enumerate 0 ROLES)"
  by (simp add: stage1Calls_def stage1Task_shape)

lemma stage2Calls_shape:
  "stage2Calls fetch settle config t1 =
     runTasks (settle 2)
       (\<lambda>(i, r). answered r (loggedQuery fetch (2, i) (stage2Prompt config t1 r)
                                (executive_model config) (6 / 10)))
       (enumerate 0 ROLES)"
  by (simp add: stage2Calls_def stage2Task_shape)

lemma stage3Calls_shape:
  "stage3Calls fetch settle config t1 rs2 roles =
     runTasks (settle 3)
       (\<lambda>(i, r). answered r (loggedQuery fetch (3, i)
                                (stage3Prompt config t1 (extractDirectedQuestions rs2 (roleName r)) r)
                                (executive_model config) (7 / 10)))
       (enumerate 0 roles)"
  by (simp add: stage3Calls_def stage3Task_shape)

lemma roleNames: "map roleName ROLES = [js ''CPO'', js ''CTO'', js ''COO'', js ''CISO'']"
  by (simp add: ROLES_def)

lemma stage1_roles:
  "snd (stage1Calls fetch settle config doc) = Inr rs \<Longrightarrow> map role rs = map roleName ROLES"
  unfolding stage1Calls_shape by (rule tasks_roles)

lemma stage2_roles:
  "snd (stage2Calls fetch settle config t1) = Inr rs \<Longrightarrow> map role rs = map roleName ROLES"
  unfolding stage2Calls_shape by (rule tasks_roles)

lemma stage3_roles:
  "snd (stage3Calls fetch settle config t1 rs2 roles) = Inr rs \<Longrightarrow> map role rs = map roleName roles"
  unfolding stage3Calls_shape by (rule tasks_roles)

lemma stage1_signature:
  "c \<in> set (fst (stage1Calls fetch settle config doc)) \<Longrightarrow>
     call_stage c = 1 \<and> call_model c = executive_model config \<and> call_temperature c = 7 / 10"
  unfolding stage1Calls_shape by (rule tasks_signature)

lemma stage2_signature:
  "c \<in> set (fst (stage2Calls fetch settle config t1)) \<Longrightarrow>
     call_stage c = 2 \<and> call_model c = executive_model config \<and> call_temperature c = 6 / 10"
  unfolding stage2Calls_shape by (rule tasks_signature)

lemma stage3_signature:
  "c \<in> set (fst (stage3Calls fetch settle config t1 rs2 roles)) \<Longrightarrow>
     call_stage c = 3 \<and> call_model c = executive_model config \<and> call_temperature c = 7 / 10"
  unfolding stage3Calls_shape by (rule tasks_signature)

lemma stage1_length: "length (fst (stage1Calls fetch settle config doc)) = 4"
  by (simp add: stage1Calls_def tasks_length ROLES_def)

lemma stage2_length: "length (fst (stage2Calls fetch settle config t1)) = 4"
  by (simp add: stage2Calls_def tasks_length ROLES_def)

lemma stage3_length: "length (fst (stage3Calls fetch settle config t1 rs2 roles)) = length roles"
  by (simp add: stage3Calls_def tasks_length)







text \<open>What a run that returns a result looks like.\<close>

lemma reviewDocument_result:
  assumes "run_result (reviewDocument fetch settle config doc cb s0) = Inr res"
  obtains t1 t2 t3 c4 where
    "t1 = stage1Calls fetch settle config doc" "snd t1 = Inr (stage1 res)"
    "t2 = stage2Calls fetch settle config (formatStage1Responses (stage1 res))"
    "snd t2 = Inr (stage2 res)"
    "t3 = (if getExecutivesWithQuestions (stage2 res) \<noteq> []
           then stage3Calls fetch settle config (formatStage1Responses (stage1 res)) (stage2 res)
                  (getExecutivesWithQuestions (stage2 res))
           else ([], Inr []))"
    "snd t3 = Inr (stage3 res)"
    "c4 = loggedQuery fetch (4, 0)
            (stage4Prompt config doc (formatStage1Responses (stage1 res))
               (formatStage2Responses (stage2 res))
               (if stage3 res \<noteq> [] then formatStage2Responses (stage3 res) else noResponses))
            (ceo_model config) (7 / 10)"
    "call_result c4 = Inr (synthesis res)"
    "run_calls (reviewDocument fetch settle config doc cb s0) = fst t1 @ fst t2 @ fst t3 @ [c4]"
proof (cases rule: reviewDocument_cases [of fetch settle config doc cb s0])
  case (stage1_rejected e)
  with assms show ?thesis by simp
next
  case (stage2_rejected r1 t2 e)
  with assms show ?thesis by simp
next
  case (stage3_rejected r1 t2 r2 t3 e)
  with assms show ?thesis by simp
next
  case (stage4 r1 t2 r2 t3 r3 c4)
  from stage4(8) assms obtain s where s: "call_result c4 = Inr s"
    and res: "res = \<lparr>stage1 = r1, stage2 = r2, stage3 = r3, synthesis = s\<rparr>"
    by (auto split: sum.splits)
  from res have sel: "stage1 res = r1" "stage2 res = r2" "stage3 res = r3" "synthesis res = s"
    by simp_all
  show ?thesis
    using stage4(1-7) s unfolding sel [symmetric]
    by (intro that [of "stage1Calls fetch settle config doc" t2 t3 c4]) simp_all
qed

text \<open>
  Two runs on the example config: one where CPO asks CTO a question in stage 2 while the
  calls of every stage settle in reverse order, and one where nobody asks anything.
\<close>

lemmas run_simps = reviewDocument_def stage1Calls_def stage2Calls_def stage3Calls_def
  runTasks_def stage1Task_def stage2Task_def stage3Task_def answered_def loggedQuery_def
  query_def queryOpenRouter_def queryAnthropic_def queryOpenAI_def answering_def busyOnce_def
  askingCTO_def allFine_def fineRecords_def resultWithQuestion_def quietResult_def
  promiseAll_def exampleConfig_def ROLES_def Let_def report_def reportQuerying_def js_def
  getExecutivesWithQuestions_def scanResponse_def mentions_def rolePatterns_def allRoles_def
  setAdd_def toUpperCase_def upperUnit_def orElse_def enumerate_eq_zip upt_rec

lemma example_run_question:
  "run_result (reviewDocument askingCTO (\<lambda>n. [3, 2, 1, 0]) exampleConfig (js ''The plan.'') None ())
   = Inr resultWithQuestion"
  by (simp add: run_simps)



section \<open>Order of the stage arrays\<close>

text \<open>
  C4: in the result of every successful run the \<open>stage1\<close> and \<open>stage2\<close> arrays hold one
  record per reviewer role, in the order CPO, CTO, COO, CISO, whatever the order
  (\<open>settle\<close>) in which the concurrent calls of a stage complete.
\<close>

theorem stage_arrays_in_role_order:
  assumes "run_result (reviewDocument fetch settle config doc cb s0) = Inr res"
  shows "map role (stage1 res) = [js ''CPO'', js ''CTO'', js ''COO'', js ''CISO'']
       \<and> map role (stage2 res) = [js ''CPO'', js ''CTO'', js ''COO'', js ''CISO'']"
proof -
  from assms obtain t1 t2 where
    "t1 = stage1Calls fetch settle config doc" "snd t1 = Inr (stage1 res)"
    "t2 = stage2Calls fetch settle config (formatStage1Responses (stage1 res))"
    "snd t2 = Inr (stage2 res)"
    by (rule reviewDocument_result)
  then show ?thesis using stage1_roles stage2_roles by (simp add: roleNames)
qed

text \<open>C4 on the example run in which the calls of every stage settle in reverse order.\<close>

theorem stage_arrays_in_role_order_witness:
  "run_result (reviewDocument askingCTO (\<lambda>n. [3, 2, 1, 0]) exampleConfig (js ''The plan.'') None ())
     = Inr resultWithQuestion
   \<and> map role (stage1 resultWithQuestion) = [js ''CPO'', js ''CTO'', js ''COO'', js ''CISO'']
   \<and> map role (stage2 resultWithQuestion) = [js ''CPO'', js ''CTO'', js ''COO'', js ''CISO'']"
  using example_run_question stage_arrays_in_role_order [OF example_run_question] by simp

section \<open>The records of stage 3\<close>

lemma roleName_inj: "roleName a = roleName b \<Longrightarrow> a = b"
  by (cases a; cases b) (simp_all add: js_def)

lemma roleName_not_CEO: "roleName a \<noteq> js ''CEO''"
  by (cases a) (simp_all add: js_def)

lemma Role_UNIV: "(UNIV :: Role set) = {CPO, CTO, COO, CISO}"
proof -
  have "x \<in> {CPO, CTO, COO, CISO}" for x by (cases x) simp_all
  then show ?thesis by blast
qed

lemma distinct_roles_length: "distinct (rs :: Role list) \<Longrightarrow> length rs \<le> 4"
proof -
  assume d: "distinct rs"
  have "finite (UNIV :: Role set)" by (simp add: Role_UNIV)
  then have "card (set rs) \<le> card (UNIV :: Role set)" by (intro card_mono) auto
  also have "card (UNIV :: Role set) = 4" by (simp add: Role_UNIV)
  finally show ?thesis using d by (simp add: distinct_card)
qed

lemma stage3_of_result:
  assumes "run_result (reviewDocument fetch settle config doc cb s0) = Inr res"
  shows "map role (stage3 res) = map roleName (getExecutivesWithQuestions (stage2 res))"
proof -
  from assms obtain t3 where
    t3: "t3 = (if getExecutivesWithQuestions (stage2 res) \<noteq> []
           then stage3Calls fetch settle config (formatStage1Responses (stage1 res)) (stage2 res)
                  (getExecutivesWithQuestions (stage2 res))
           else ([], Inr []))"
    and r3: "snd t3 = Inr (stage3 res)"
    by (rule reviewDocument_result)
  show ?thesis
  proof (cases "getExecutivesWithQuestions (stage2 res) = []")
    case True
    with t3 r3 show ?thesis by simp
  next
    case False
    with t3 r3 show ?thesis using stage3_roles by simp
  qed
qed

text \<open>
  C10: in the result of every successful run the \<open>stage3\<close> array has at most one record
  per role, every role in it is one of CPO, CTO, COO, CISO and never CEO, and the array
  has at most 4 entries.
\<close>

theorem stage3_one_record_per_reviewer:
  assumes "run_result (reviewDocument fetch settle config doc cb s0) = Inr res"
  shows "distinct (map role (stage3 res))
       \<and> set (map role (stage3 res)) \<subseteq> {js ''CPO'', js ''CTO'', js ''COO'', js ''CISO''}
       \<and> js ''CEO'' \<notin> set (map role (stage3 res))
       \<and> length (stage3 res) \<le> 4"
proof -
  let ?rs = "getExecutivesWithQuestions (stage2 res)"
  have m: "map role (stage3 res) = map roleName ?rs" using assms by (rule stage3_of_result)
  have d: "distinct ?rs" by (rule getExecutivesWithQuestions_distinct)
  have "distinct (map roleName ?rs)"
    using d by (simp add: distinct_map inj_on_def) (blast dest: roleName_inj)
  moreover have "set (map roleName ?rs) \<subseteq> {js ''CPO'', js ''CTO'', js ''COO'', js ''CISO''}"
  proof
    fix x assume "x \<in> set (map roleName ?rs)"
    then obtain r where "x = roleName r" by auto
    then show "x \<in> {js ''CPO'', js ''CTO'', js ''COO'', js ''CISO''}" by (cases r) simp_all
  qed
  moreover have "js ''CEO'' \<notin> set (map roleName ?rs)"
  proof
    assume "js ''CEO'' \<in> set (map roleName ?rs)"
    then obtain r where "js ''CEO'' = roleName r" by (auto simp del: roleName.simps)
    then show False using roleName_not_CEO [of r] by simp
  qed
  moreover have "length (stage3 res) \<le> 4"
  proof -
    have "length (stage3 res) = length (map role (stage3 res))" by simp
    also have "\<dots> = length ?rs" unfolding m by simp
    also have "\<dots> \<le> 4" using d by (rule distinct_roles_length)
    finally show ?thesis .
  qed
  ultimately show ?thesis unfolding m by blast
qed

text \<open>C10 on the example run in which CPO asks CTO a question.\<close>

theorem stage3_one_record_per_reviewer_witness:
  "run_result (reviewDocument askingCTO (\<lambda>n. [3, 2, 1, 0]) exampleConfig (js ''The plan.'') None ())
     = Inr resultWithQuestion
   \<and> map role (stage3 resultWithQuestion) = [js ''CTO'']
   \<and> distinct (map role (stage3 resultWithQuestion))
   \<and> js ''CEO'' \<notin> set (map role (stage3 resultWithQuestion))
   \<and> length (stage3 resultWithQuestion) \<le> 4"
  using example_run_question stage3_one_record_per_reviewer [OF example_run_question]
  by (simp add: resultWithQuestion_def)

section \<open>Model and temperature of the calls\<close>

text \<open>
  C7: every call of stage 1, 2 and 3 is made with the executive model of the config and
  temperature 0.7, 0.6 and 0.7, the call of stage 4 with the CEO model and temperature
  0.7, and there is at most one call of stage 4; a successful run makes four calls of
  stage 1, four of stage 2, one of stage 3 per record of \<open>stage3\<close> and one of stage 4, in
  this order. This holds for every document, config, provider and settling order.
\<close>

theorem calls_use_configured_models:
  "(\<forall>c \<in> set (run_calls (reviewDocument fetch settle config doc cb s0)).
        (call_stage c = 1 \<and> call_model c = executive_model config \<and> call_temperature c = 7 / 10)
      \<or> (call_stage c = 2 \<and> call_model c = executive_model config \<and> call_temperature c = 6 / 10)
      \<or> (call_stage c = 3 \<and> call_model c = executive_model config \<and> call_temperature c = 7 / 10)
      \<or> (call_stage c = 4 \<and> call_model c = ceo_model config \<and> call_temperature c = 7 / 10))
   \<and> length (filter (\<lambda>c. call_stage c = 4)
        (run_calls (reviewDocument fetch settle config doc cb s0))) \<le> 1
   \<and> (\<forall>res. run_result (reviewDocument fetch settle config doc cb s0) = Inr res \<longrightarrow>
         map (\<lambda>c. (call_stage c, call_model c, call_temperature c))
           (run_calls (reviewDocument fetch settle config doc cb s0))
         = replicate 4 (1, executive_model config, 7 / 10)
           @ replicate 4 (2, executive_model config, 6 / 10)
           @ replicate (length (stage3 res)) (3, executive_model config, 7 / 10)
           @ [(4, ceo_model config, 7 / 10)])"
  (is "?A \<and> ?B \<and> ?C")
proof (intro conjI)
  let ?run = "reviewDocument fetch settle config doc cb s0"
  show ?A
  proof
    fix c assume c: "c \<in> set (run_calls ?run)"
    show "(call_stage c = 1 \<and> call_model c = executive_model config \<and> call_temperature c = 7 / 10)
      \<or> (call_stage c = 2 \<and> call_model c = executive_model config \<and> call_temperature c = 6 / 10)
      \<or> (call_stage c = 3 \<and> call_model c = executive_model config \<and> call_temperature c = 7 / 10)
      \<or> (call_stage c = 4 \<and> call_model c = ceo_model config \<and> call_temperature c = 7 / 10)"
    proof (cases rule: reviewDocument_cases [of fetch settle config doc cb s0])
      case (stage1_rejected e)
      with c show ?thesis using stage1_signature by auto
    next
      case (stage2_rejected r1 t2 e)
      with c show ?thesis using stage1_signature stage2_signature by auto
    next
      case (stage3_rejected r1 t2 r2 t3 e)
      with c show ?thesis using stage1_signature stage2_signature stage3_signature by auto
    next
      case (stage4 r1 t2 r2 t3 r3 c4)
      from c stage4(7) consider "c \<in> set (fst (stage1Calls fetch settle config doc))"
        | "c \<in> set (fst t2)" | "c \<in> set (fst t3)" | "c = c4" by auto
      then show ?thesis
      proof cases
        case 1
        then show ?thesis using stage1_signature by blast
      next
        case 2
        then show ?thesis using stage2_signature stage4(2) by blast
      next
        case 3
        with stage4(4) have "c \<in> set (fst (stage3Calls fetch settle config
            (formatStage1Responses r1) r2 (getExecutivesWithQuestions r2)))"
          by (auto split: if_splits)
        then show ?thesis using stage3_signature by blast
      next
        case 4
        with stage4(6) show ?thesis by (simp add: loggedQuery_def)
      qed
    qed
  qed
  have no4: "filter (\<lambda>c. call_stage c = 4) cs = []"
    if "\<forall>c \<in> set cs. call_stage c = 1 \<or> call_stage c = 2 \<or> call_stage c = 3" for cs :: "Call list"
    using that by (induction cs) auto
  have s1: "\<forall>c \<in> set (fst (stage1Calls fetch settle config doc)).
      call_stage c = 1 \<or> call_stage c = 2 \<or> call_stage c = 3"
    using stage1_signature by blast
  have s2: "\<forall>c \<in> set (fst (stage2Calls fetch settle config t)).
      call_stage c = 1 \<or> call_stage c = 2 \<or> call_stage c = 3" for t
    using stage2_signature by blast
  have s3: "\<forall>c \<in> set (fst (stage3Calls fetch settle config t rs roles)).
      call_stage c = 1 \<or> call_stage c = 2 \<or> call_stage c = 3" for t rs roles
    using stage3_signature by blast
  show ?B
  proof (cases rule: reviewDocument_cases [of fetch settle config doc cb s0])
    case (stage1_rejected e)
    then show ?thesis using no4 [OF s1] by simp
  next
    case (stage2_rejected r1 t2 e)
    then show ?thesis using no4 [OF s1] no4 [OF s2] by simp
  next
    case (stage3_rejected r1 t2 r2 t3 e)
    then show ?thesis using no4 [OF s1] no4 [OF s2] no4 [OF s3] by simp
  next
    case (stage4 r1 t2 r2 t3 r3 c4)
    have "filter (\<lambda>c. call_stage c = 4) (fst t3) = []"
      using stage4(4) no4 [OF s3] by (simp split: if_splits)
    with stage4 show ?thesis using no4 [OF s1] no4 [OF s2] by simp
  qed
  have sig: "map (\<lambda>c. (call_stage c, call_model c, call_temperature c)) cs = replicate (length cs) x"
    if "\<forall>c \<in> set cs. (call_stage c, call_model c, call_temperature c) = x"
    for cs :: "Call list" and x
    using that by (induction cs) auto
  show ?C
  proof (intro allI impI)
    fix res assume ok: "run_result ?run = Inr res"
    then obtain t1 t2 t3 c4 where t:
      "t1 = stage1Calls fetch settle config doc" "snd t1 = Inr (stage1 res)"
      "t2 = stage2Calls fetch settle config (formatStage1Responses (stage1 res))"
      "snd t2 = Inr (stage2 res)"
      "t3 = (if getExecutivesWithQuestions (stage2 res) \<noteq> []
           then stage3Calls fetch settle config (formatStage1Responses (stage1 res)) (stage2 res)
                  (getExecutivesWithQuestions (stage2 res))
           else ([], Inr []))"
      "snd t3 = Inr (stage3 res)"
      "c4 = loggedQuery fetch (4, 0)
            (stage4Prompt config doc (formatStage1Responses (stage1 res))
               (formatStage2Responses (stage2 res))
               (if stage3 res \<noteq> [] then formatStage2Responses (stage3 res) else noResponses))
            (ceo_model config) (7 / 10)"
      "call_result c4 = Inr (synthesis res)"
      "run_calls ?run = fst t1 @ fst t2 @ fst t3 @ [c4]"
      by (rule reviewDocument_result)
    have m1: "map (\<lambda>c. (call_stage c, call_model c, call_temperature c)) (fst t1)
        = replicate 4 (1, executive_model config, 7 / 10)"
      using sig [of "fst t1" "(1, executive_model config, 7 / 10)"] stage1_signature
      unfolding t(1) by (simp add: stage1_length)
    have m2: "map (\<lambda>c. (call_stage c, call_model c, call_temperature c)) (fst t2)
        = replicate 4 (2, executive_model config, 6 / 10)"
      using sig [of "fst t2" "(2, executive_model config, 6 / 10)"] stage2_signature
      unfolding t(3) by (simp add: stage2_length)
    have l3: "length (fst t3) = length (stage3 res)"
    proof (cases "getExecutivesWithQuestions (stage2 res) = []")
      case True
      with t(5,6) show ?thesis by simp
    next
      case False
      with t(5) have "length (fst t3) = length (getExecutivesWithQuestions (stage2 res))"
        by (simp add: stage3_length)
      also have "\<dots> = length (map role (stage3 res))"
        using stage3_of_result [OF ok] by simp
      finally show ?thesis by simp
    qed
    have "\<forall>c \<in> set (fst t3). (call_stage c, call_model c, call_temperature c)
        = (3, executive_model config, 7 / 10)"
      using t(5) stage3_signature by (auto split: if_splits)
    then have m3: "map (\<lambda>c. (call_stage c, call_model c, call_temperature c)) (fst t3)
        = replicate (length (stage3 res)) (3, executive_model config, 7 / 10)"
      using sig [of "fst t3" "(3, executive_model config, 7 / 10)"] l3 by simp
    have m4: "(call_stage c4, call_model c4, call_temperature c4) = (4, ceo_model config, 7 / 10)"
      using t(7) by (simp add: loggedQuery_def)
    show "map (\<lambda>c. (call_stage c, call_model c, call_temperature c)) (run_calls ?run)
         = replicate 4 (1, executive_model config, 7 / 10)
           @ replicate 4 (2, executive_model config, 6 / 10)
           @ replicate (length (stage3 res)) (3, executive_model config, 7 / 10)
           @ [(4, ceo_model config, 7 / 10)]"
      unfolding t(9) using m1 m2 m3 m4 by simp
  qed
qed

text \<open>C7 on the example run in which CPO asks CTO a question: ten calls.\<close>

theorem calls_use_configured_models_witness:
  "map (\<lambda>c. (call_stage c, call_model c, call_temperature c))
     (run_calls (reviewDocument askingCTO (\<lambda>n. [3, 2, 1, 0]) exampleConfig (js ''The plan.'') None ()))
   = replicate 4 (1, js ''openrouter:exec-model'', 7 / 10)
     @ replicate 4 (2, js ''openrouter:exec-model'', 6 / 10)
     @ [(3, js ''openrouter:exec-model'', 7 / 10), (4, js ''anthropic:ceo-model'', 7 / 10)]"
proof -
  have "map (\<lambda>c. (call_stage c, call_model c, call_temperature c))
     (run_calls (reviewDocument askingCTO (\<lambda>n. [3, 2, 1, 0]) exampleConfig (js ''The plan.'') None ()))
   = replicate 4 (1, executive_model exampleConfig, 7 / 10)
     @ replicate 4 (2, executive_model exampleConfig, 6 / 10)
     @ replicate (length (stage3 resultWithQuestion)) (3, executive_model exampleConfig, 7 / 10)
     @ [(4, ceo_model exampleConfig, 7 / 10)]"
    using calls_use_configured_models
      [of askingCTO "\<lambda>n. [3, 2, 1, 0]" exampleConfig "js ''The plan.''" None "()"]
      example_run_question by blast
  then show ?thesis by (simp add: resultWithQuestion_def exampleConfig_def)
qed

section \<open>A stage 2 without questions\<close>



section \<open>Properties of the status store\<close>

lemma kvGet_kvPut: "kvGet (kvPut kv k v) k' = (if k' = k then Some v else kvGet kv k')"
  by (simp add: kvGet_def kvPut_def)




lemma updateJobStatus_get:
  "kvGet (updateJobStatus kv job st extra now) (jobKey job) =
     Some (mergeJobStatus (kvGet kv (jobKey job)) job st extra now)"
  by (simp add: updateJobStatus_def Let_def kvGet_kvPut)







text \<open>Whatever the callback preserves, the engine preserves.\<close>

lemma report_invariant:
  assumes "\<And>stage step s. I s \<Longrightarrow> I (f stage step s)" and "I s"
  shows "I (report (Some f) stage step s)"
  using assms by (simp add: report_def)

lemma reportQuerying_invariant:
  assumes "\<And>stage step s. I s \<Longrightarrow> I (f stage step s)" and "I s"
  shows "I (reportQuerying (Some f) stage roles s)"
  unfolding reportQuerying_def using assms(2)
proof (induction roles arbitrary: s)
  case Nil
  then show ?case by simp
next
  case (Cons r roles)
  have "I (report (Some f) stage (js ''Querying '' @ roleName r) s)"
    using assms(1) Cons.prems by (rule report_invariant)
  then show ?case using Cons.IH by simp
qed

lemma reviewDocument_invariant:
  assumes step: "\<And>stage step s. I s \<Longrightarrow> I (f stage step s)" and init: "I s0"
  shows "I (run_state (reviewDocument fetch settle config doc (Some f) s0))"
proof -
  note r = report_invariant [of I f, OF step]
  note q = reportQuerying_invariant [of I f, OF step]
  show ?thesis
    unfolding reviewDocument_def Let_def
    by (auto split: prod.splits sum.splits if_splits intro!: r q init)
qed




section \<open>Properties of the consumer\<close>


lemma tryReview_queue: "REVIEW_QUEUE (fst (tryReview rt m env)) = REVIEW_QUEUE env"
  unfolding tryReview_def Let_def
  by (auto split: option.splits sum.splits)




text \<open>
  The example job: submitted, then its message delivered while the provider fails the
  second call of stage 1.
\<close>

lemma submitted:
  "postReview (\<lambda>u. True) (\<lambda>c. js ''{config}'') (js ''job-1'') (js ''2025-01-15T10:30:00.000Z'')
     (Inr (exampleBody (js ''The plan.''))) emptyEnv
   = (submittedEnv, Accepted202 (js ''job-1'') (js ''2025-01-15T10:30:00.000Z''))"
  by (simp add: postReview_def reviewRequestSchema_def configSchema_def roleInstructionsSchema_def
        exampleBody_def emptyEnv_def submittedEnv_def exampleMessage_def kvPut_def jobKey_def
        js_def Let_def)

lemma busy_run:
  "run_result (reviewDocument busyOnce (\<lambda>n. []) exampleConfig (js ''The plan.'') cb s0)
     = Inl (js ''OpenRouter API error (503): busy'')"
  by (simp add: run_simps)

lemma busy_history:
  "statusHistory (JOBS (fst (processMessage (exampleRuntime busyOnce) exampleMessage submittedEnv)))
     (js ''job-1'')
   = [Queued, Processing, Processing, Processing, Processing, Processing, Processing, Failed]"
  by (simp add: processMessage_def tryReview_def exampleRuntime_def exampleMessage_def
        submittedEnv_def busy_run updateJobStatus_def updateJobProgress_def kvGet_def kvPut_def
        mergeJobStatus_def noFields_def override_def orElse_def statusHistory_def jobKey_def
        reviewDocument_def stage1Calls_def runTasks_def stage1Task_def answered_def loggedQuery_def
        query_def queryOpenRouter_def busyOnce_def promiseAll_def exampleConfig_def ROLES_def
        Let_def report_def reportQuerying_def js_def enumerate_eq_zip upt_rec)

lemma busy_record:
  "kvGet (JOBS (fst (processMessage (exampleRuntime busyOnce) exampleMessage submittedEnv)))
     (jobKey (js ''job-1''))
   = Some \<lparr>id_field = js ''job-1'', status = Failed, created_at = js ''2025-01-15T10:30:00.000Z'',
       started_at = Some (js ''2025-01-15T10:31:00.000Z''), completed_at = None,
       failed_at = Some (js ''2025-01-15T10:31:00.000Z''),
       error = Some (js ''OpenRouter API error (503): busy''), webhook_url = None,
       progress = Some \<lparr>progress_stage = js ''stage1'', progress_step = js ''Querying CISO''\<rparr>\<rparr>"
  by (simp add: processMessage_def tryReview_def exampleRuntime_def exampleMessage_def
        submittedEnv_def busy_run updateJobStatus_def updateJobProgress_def kvGet_def kvPut_def
        mergeJobStatus_def noFields_def override_def orElse_def jobKey_def
        reviewDocument_def stage1Calls_def runTasks_def stage1Task_def answered_def loggedQuery_def
        query_def queryOpenRouter_def busyOnce_def promiseAll_def exampleConfig_def ROLES_def
        Let_def report_def reportQuerying_def js_def enumerate_eq_zip upt_rec)




section \<open>Status of a job over deliveries\<close>





section \<open>A failed generation call\<close>




section \<open>What a status update keeps\<close>

text \<open>
  A record written by \<open>updateJobStatus\<close> has a \<open>created_at\<close> that is not empty, as the
  reading of the clock is not (an ISO timestamp); the record written at submission holds
  the timestamp of the submission.
\<close>

lemma record_written_has_created_at:
  "now \<noteq> [] \<Longrightarrow> p_created_at extra = None \<Longrightarrow>
     created_at (mergeJobStatus existing job st extra now) \<noteq> []"
  by (auto simp: mergeJobStatus_def orElse_def split: option.splits)

lemma stamped_get: "stamped kv \<Longrightarrow> kvGet kv k = Some e \<Longrightarrow> created_at e \<noteq> []"
  by (auto simp: stamped_def kvGet_def dest: map_of_SomeD)

lemma stamped_put: "stamped kv \<Longrightarrow> created_at r \<noteq> [] \<Longrightarrow> stamped (kvPut kv k r)"
  by (simp add: stamped_def kvPut_def)

lemma stamped_status:
  "stamped kv \<Longrightarrow> now \<noteq> [] \<Longrightarrow> p_created_at extra = None \<Longrightarrow>
     stamped (updateJobStatus kv job st extra now)"
  by (simp add: updateJobStatus_def Let_def stamped_put record_written_has_created_at)

lemma stamped_progress: "stamped kv \<Longrightarrow> stamped (updateJobProgress kv job stage step)"
  by (auto simp: updateJobProgress_def split: option.splits intro!: stamped_put dest: stamped_get)

lemma stamped_tryReview:
  assumes "stamped (JOBS env)" and "\<forall>n. rt_now rt n \<noteq> []"
  shows "stamped (JOBS (fst (tryReview rt m env)))"
proof -
  let ?kv = "updateJobStatus (JOBS env) (m_jobId m) Processing
                   (noFields\<lparr>p_started_at := Some (rt_now rt 0)\<rparr>) (rt_now rt 1)"
  have start: "stamped (updateJobStatus (JOBS env) (m_jobId m) Processing
                   (noFields\<lparr>p_started_at := Some t\<rparr>) (rt_now rt k))" for t k
    using assms by (simp add: stamped_status noFields_def)
  have run: "stamped (run_state (reviewDocument fetch settle config doc
      (Some (\<lambda>stage step kv. updateJobProgress kv (m_jobId m) stage step)) kv))"
    if "stamped kv" for fetch settle config doc kv
    by (rule reviewDocument_invariant [where I = stamped]) (auto intro: stamped_progress that)
  have fin: "stamped (updateJobStatus kv (m_jobId m) Completed
        (noFields\<lparr>p_completed_at := Some t\<rparr>) (rt_now rt k))" if "stamped kv" for kv t k
    using that assms(2) by (simp add: stamped_status noFields_def)
  show ?thesis
    unfolding tryReview_def Let_def
    using start run fin
    by (auto split: option.splits sum.splits)
qed

lemma stamped_processMessage:
  assumes "stamped (JOBS env)" and "\<forall>n. rt_now rt n \<noteq> []"
  shows "stamped (JOBS (fst (processMessage rt m env)))"
proof (cases "tryReview rt m env")
  case (Pair env' out)
  have "stamped (JOBS env')" using stamped_tryReview [OF assms, of m] Pair by simp
  then show ?thesis
    using Pair assms(2)
    by (cases out) (simp_all add: processMessage_def stamped_status noFields_def)
qed

lemma stamped_postReview:
  assumes "stamped (JOBS env)" and "timestamp \<noteq> []"
  shows "stamped (JOBS (fst (postReview isUrl stringify uuid timestamp body env)))"
  using assms
  by (auto simp: postReview_def Let_def split: sum.splits option.splits intro!: stamped_put)

lemma reachable_stamped: "reachable env \<Longrightarrow> stamped (JOBS env)"
proof (induction rule: reachable.induct)
  case start
  then show ?case by (simp add: stamped_def)
next
  case (submit env timestamp isUrl stringify uuid body)
  then show ?case by (simp add: stamped_postReview)
next
  case (deliver env rt message)
  then show ?case by (simp add: stamped_processMessage)
qed

text \<open>
  C9: \<open>updateJobStatus\<close> writes the new fields over the existing record and clears none.
  Marking a job completed, as the consumer does, gives the record the status
  \<open>completed\<close> and \<open>completed_at\<close> and leaves \<open>error\<close>, \<open>failed_at\<close>, \<open>progress\<close>,
  \<open>started_at\<close> and \<open>webhook_url\<close> as they were; with any status and any extra fields,
  a field that the existing record has is there afterwards. \<open>created_at\<close> is the one of
  the existing record unless that is the empty string (or \<open>extra\<close> sets another), and
  it is not the empty string in any record of an environment that the workers produce.
\<close>

theorem updateJobStatus_keeps_fields:
  assumes "kvGet kv (jobKey job) = Some e"
  shows "(\<exists>r. kvGet (updateJobStatus kv job Completed (noFields\<lparr>p_completed_at := Some t\<rparr>) now)
              (jobKey job) = Some r
          \<and> status r = Completed \<and> completed_at r = Some t
          \<and> error r = error e \<and> failed_at r = failed_at e \<and> progress r = progress e
          \<and> started_at r = started_at e \<and> webhook_url r = webhook_url e
          \<and> (created_at e \<noteq> [] \<longrightarrow> created_at r = created_at e))
       \<and> (\<exists>r. kvGet (updateJobStatus kv job st extra now) (jobKey job) = Some r
          \<and> (started_at e \<noteq> None \<longrightarrow> started_at r \<noteq> None)
          \<and> (completed_at e \<noteq> None \<longrightarrow> completed_at r \<noteq> None)
          \<and> (failed_at e \<noteq> None \<longrightarrow> failed_at r \<noteq> None)
          \<and> (error e \<noteq> None \<longrightarrow> error r \<noteq> None)
          \<and> (webhook_url e \<noteq> None \<longrightarrow> webhook_url r \<noteq> None)
          \<and> (progress e \<noteq> None \<longrightarrow> progress r \<noteq> None)
          \<and> (p_created_at extra = None \<and> created_at e \<noteq> [] \<longrightarrow> created_at r = created_at e))
       \<and> (\<forall>env. reachable env \<and> kv = JOBS env \<longrightarrow> created_at e \<noteq> [])"
  using assms
  by (auto simp: updateJobStatus_get mergeJobStatus_def noFields_def override_def orElse_def
        split: option.splits dest: reachable_stamped stamped_get)

text \<open>
  C9 on the record of the example job after its failed delivery: marked completed, it
  still carries the error, \<open>failed_at\<close> and the progress of the failed attempt.
\<close>

theorem updateJobStatus_keeps_fields_witness:
  "\<exists>r. kvGet (updateJobStatus
            (JOBS (fst (processMessage (exampleRuntime busyOnce) exampleMessage submittedEnv)))
            (js ''job-1'') Completed
            (noFields\<lparr>p_completed_at := Some (js ''2025-01-15T10:40:00.000Z'')\<rparr>)
            (js ''2025-01-15T10:40:00.001Z''))
          (jobKey (js ''job-1'')) = Some r
     \<and> status r = Completed
     \<and> completed_at r = Some (js ''2025-01-15T10:40:00.000Z'')
     \<and> error r = Some (js ''OpenRouter API error (503): busy'')
     \<and> failed_at r = Some (js ''2025-01-15T10:31:00.000Z'')
     \<and> progress r = Some \<lparr>progress_stage = js ''stage1'', progress_step = js ''Querying CISO''\<rparr>
     \<and> created_at r = js ''2025-01-15T10:30:00.000Z''"
proof -
  have ne: "created_at \<lparr>id_field = js ''job-1'', status = Failed,
       created_at = js ''2025-01-15T10:30:00.000Z'',
       started_at = Some (js ''2025-01-15T10:31:00.000Z''), completed_at = None,
       failed_at = Some (js ''2025-01-15T10:31:00.000Z''),
       error = Some (js ''OpenRouter API error (503): busy''), webhook_url = None,
       progress = Some \<lparr>progress_stage = js ''stage1'', progress_step = js ''Querying CISO''\<rparr>\<rparr>
     \<noteq> []"
    by (simp add: js_def)
  from updateJobStatus_keeps_fields [OF busy_record,
      of "js ''2025-01-15T10:40:00.000Z''" "js ''2025-01-15T10:40:00.001Z''"] ne
  show ?thesis by auto
qed

section \<open>Rejected submissions\<close>

lemma postReview_invalid:
  "reviewRequestSchema isUrl body = None \<Longrightarrow>
     postReview isUrl stringify uuid timestamp (Inr body) env = (env, Invalid400)"
  by (simp add: postReview_def)

lemma zString_None_iff: "zString j = None \<longleftrightarrow> (\<forall>s. j \<noteq> Some (JString s))"
  by (cases j rule: zString.cases) auto

lemma roleInstructionsSchema_missing:
  assumes "k \<in> {js ''CTO'', js ''CPO'', js ''COO'', js ''CISO'', js ''CEO''}"
    and "map_of ri k = None"
  shows "roleInstructionsSchema (Some (JObject ri)) = None"
  using assms by (auto simp: roleInstructionsSchema_def split: option.splits)

lemma configSchema_missing:
  assumes "k \<in> {js ''executive_model'', js ''ceo_model'', js ''operational_context'',
                 js ''custom_role_instructions''}"
    and "map_of cfg k = None"
  shows "configSchema (Some (JObject cfg)) = None"
  using assms
  by (auto simp: configSchema_def roleInstructionsSchema_def split: option.splits)

lemma configSchema_missing_role:
  assumes "map_of cfg (js ''custom_role_instructions'') = Some (JObject ri)"
    and "k \<in> {js ''CTO'', js ''CPO'', js ''COO'', js ''CISO'', js ''CEO''}"
    and "map_of ri k = None"
  shows "configSchema (Some (JObject cfg)) = None"
  using assms(1) roleInstructionsSchema_missing [OF assms(2,3)]
  by (auto simp: configSchema_def split: option.splits)

text \<open>
  C8: a submission with an empty document, a document of more than 100000 characters, no
  config, a config that lacks a field, or a webhook URL that is not a URL is answered
  400 and leaves the environment as it was: no document, no config, no status record
  and no queue message.
\<close>

theorem invalid_submission_creates_nothing:
  assumes "(\<exists>d. map_of members (js ''document'') = Some (JString d) \<and> (d = [] \<or> 100000 < length d))
     \<or> map_of members (js ''config'') = None
     \<or> (\<exists>cfg k. map_of members (js ''config'') = Some (JObject cfg)
           \<and> k \<in> {js ''executive_model'', js ''ceo_model'', js ''operational_context'',
                     js ''custom_role_instructions''}
           \<and> map_of cfg k = None)
     \<or> (\<exists>cfg ri k. map_of members (js ''config'') = Some (JObject cfg)
           \<and> map_of cfg (js ''custom_role_instructions'') = Some (JObject ri)
           \<and> k \<in> {js ''CTO'', js ''CPO'', js ''COO'', js ''CISO'', js ''CEO''}
           \<and> map_of ri k = None)
     \<or> (\<exists>u. map_of members (js ''webhook_url'') = Some (JString u) \<and> \<not> isUrl u)"
  shows "postReview isUrl stringify uuid timestamp (Inr (JObject members)) env = (env, Invalid400)"
proof -
  have "reviewRequestSchema isUrl (JObject members) = None"
    using assms
  proof (elim disjE exE conjE)
    fix d assume "map_of members (js ''document'') = Some (JString d)" "d = []"
    then show ?thesis by (simp add: reviewRequestSchema_def)
  next
    fix d assume "map_of members (js ''document'') = Some (JString d)" "100000 < length d"
    then show ?thesis by (simp add: reviewRequestSchema_def)
  next
    assume "map_of members (js ''config'') = None"
    then show ?thesis
      by (simp add: reviewRequestSchema_def configSchema_def split: option.splits)
  next
    fix cfg k
    assume "map_of members (js ''config'') = Some (JObject cfg)"
      "k \<in> {js ''executive_model'', js ''ceo_model'', js ''operational_context'',
                     js ''custom_role_instructions''}" "map_of cfg k = None"
    then show ?thesis
      using configSchema_missing [of k cfg]
      by (simp add: reviewRequestSchema_def split: option.splits)
  next
    fix cfg ri k
    assume "map_of members (js ''config'') = Some (JObject cfg)"
      "map_of cfg (js ''custom_role_instructions'') = Some (JObject ri)"
      "k \<in> {js ''CTO'', js ''CPO'', js ''COO'', js ''CISO'', js ''CEO''}" "map_of ri k = None"
    then show ?thesis
      using configSchema_missing_role [of cfg ri k]
      by (simp add: reviewRequestSchema_def split: option.splits)
  next
    fix u assume "map_of members (js ''webhook_url'') = Some (JString u)" "\<not> isUrl u"
    then show ?thesis by (simp add: reviewRequestSchema_def split: option.splits)
  qed
  then show ?thesis by (rule postReview_invalid)
qed

text \<open>C8 on the example request with an empty document, sent after the example job.\<close>

theorem invalid_submission_creates_nothing_witness:
  "postReview (\<lambda>u. True) (\<lambda>c. js ''{config}'') (js ''job-2'') (js ''2025-01-15T10:35:00.000Z'')
     (Inr (exampleBody [])) submittedEnv
   = (submittedEnv, Invalid400)"
proof -
  obtain members where m: "exampleBody [] = JObject members"
    and d: "map_of members (js ''document'') = Some (JString [])"
    by (simp add: exampleBody_def js_def)
  from d have "(\<exists>d. map_of members (js ''document'') = Some (JString d) \<and> (d = [] \<or> 100000 < length d))"
    by simp
  then show ?thesis
    unfolding m by (intro invalid_submission_creates_nothing disjI1)
qed


end
